theory Spec2Isabelle
  imports Complex_Main
begin

section \<open>Values, errors and tables\<close>

text \<open>
  The data preparer of InvestBoard (\<^verbatim>\<open>src/datapreparer.py\<close>) works on pandas tables.
  A table cell holds a string, a number, a date or the missing-value marker (\<^verbatim>\<open>None\<close>/\<^verbatim>\<open>NaN\<close>).
  Amounts and rates (\<^verbatim>\<open>Decimal\<close> and \<^verbatim>\<open>float64\<close> in the source) are modelled as exact rationals;
  the difference between the two number representations is not modelled.
  A date is an abstract day number.
\<close>

type_synonym date = nat

datatype cell = Str string | Num rat | Date date | NA

text \<open>
  The exceptions the code can raise. \<^verbatim>\<open>RateUnavailableError\<close> is not declared in
  \<^verbatim>\<open>src/errors.py\<close>: it is the failure of the historical-rate collaborator, which the
  data preparer never catches.
\<close>

datatype error =
    KeyError string
  | AttributeError
  | TypeError
  | ZeroDivisionError
  | IndexError
  | ValueError
  | RateUnavailableError date string

definition and_then :: "error + 'a \<Rightarrow> ('a \<Rightarrow> error + 'b) \<Rightarrow> error + 'b" where
  "and_then m f = (case m of Inl e \<Rightarrow> Inl e | Inr x \<Rightarrow> f x)"

text \<open>Running a fallible function over a list stops at the first exception.\<close>

fun traverse :: "('a \<Rightarrow> error + 'b) \<Rightarrow> 'a list \<Rightarrow> error + 'b list" where
  "traverse f [] = Inr []"
| "traverse f (x # xs) =
     (case f x of
        Inl e \<Rightarrow> Inl e
      | Inr y \<Rightarrow> (case traverse f xs of Inl e \<Rightarrow> Inl e | Inr ys \<Rightarrow> Inr (y # ys)))"

fun foldM :: "('s \<Rightarrow> 'a \<Rightarrow> error + 's) \<Rightarrow> 's \<Rightarrow> 'a list \<Rightarrow> error + 's" where
  "foldM f s [] = Inr s"
| "foldM f s (x # xs) = (case f s x of Inl e \<Rightarrow> Inl e | Inr s' \<Rightarrow> foldM f s' xs)"

text \<open>
  A \<^verbatim>\<open>DataFrame\<close>: the column labels in order and, for every row, the cell under each
  label. A label that is not a column of the table reads as \<open>NA\<close>.
\<close>

type_synonym row = "string \<Rightarrow> cell"

record frame =
  columns :: "string list"
  rows :: "row list"

definition row_of :: "string list \<Rightarrow> cell list \<Rightarrow> row" where
  "row_of cols vals = (\<lambda>c. case map_of (zip cols vals) c of Some v \<Rightarrow> v | None \<Rightarrow> NA)"

text \<open>\<^verbatim>\<open>pd.DataFrame(rows, columns=cols)\<close>\<close>

definition DataFrame :: "cell list list \<Rightarrow> string list \<Rightarrow> frame" where
  "DataFrame rs cols = \<lparr>columns = cols, rows = map (row_of cols) rs\<rparr>"

text \<open>\<^verbatim>\<open>df[c]\<close> raises \<^verbatim>\<open>KeyError\<close> and \<^verbatim>\<open>df.c\<close> raises \<^verbatim>\<open>AttributeError\<close> when \<open>c\<close> is no column.\<close>

definition getitem :: "frame \<Rightarrow> string \<Rightarrow> error + cell list" where
  "getitem df c = (if c \<in> set (columns df) then Inr (map (\<lambda>r. r c) (rows df)) else Inl (KeyError c))"

definition getattr :: "frame \<Rightarrow> string \<Rightarrow> error + cell list" where
  "getattr df c = (if c \<in> set (columns df) then Inr (map (\<lambda>r. r c) (rows df)) else Inl AttributeError)"

text \<open>
  \<^verbatim>\<open>df[c] = series\<close>: an existing column is overwritten in place, a new one is appended.
  The series always comes from the same table, so it has one value per row.
\<close>

definition add_column :: "string \<Rightarrow> string list \<Rightarrow> string list" where
  "add_column c cols = (if c \<in> set cols then cols else cols @ [c])"

definition setitem :: "frame \<Rightarrow> string \<Rightarrow> cell list \<Rightarrow> frame" where
  "setitem df c vals =
     \<lparr>columns = add_column c (columns df),
      rows = map (\<lambda>(r, v). r(c := v)) (zip (rows df) vals)\<rparr>"

text \<open>\<^verbatim>\<open>df[c] = scalar\<close>\<close>

definition setitem_scalar :: "frame \<Rightarrow> string \<Rightarrow> cell \<Rightarrow> frame" where
  "setitem_scalar df c v =
     \<lparr>columns = add_column c (columns df), rows = map (\<lambda>r. r(c := v)) (rows df)\<rparr>"

text \<open>\<^verbatim>\<open>df.drop(columns=c)\<close> raises \<^verbatim>\<open>KeyError\<close> when the label is not found.\<close>

definition drop_column :: "frame \<Rightarrow> string \<Rightarrow> error + frame" where
  "drop_column df c =
     (if c \<in> set (columns df)
      then Inr \<lparr>columns = filter (\<lambda>d. d \<noteq> c) (columns df), rows = map (\<lambda>r. r(c := NA)) (rows df)\<rparr>
      else Inl (KeyError c))"

text \<open>\<^verbatim>\<open>df.fillna(v)\<close> replaces the missing cells of every column.\<close>

definition fill_cell :: "cell \<Rightarrow> cell \<Rightarrow> cell" where
  "fill_cell v x = (case x of NA \<Rightarrow> v | _ \<Rightarrow> x)"

definition fillna :: "cell \<Rightarrow> frame \<Rightarrow> frame" where
  "fillna v df =
     \<lparr>columns = columns df,
      rows = map (\<lambda>r c. if c \<in> set (columns df) then fill_cell v (r c) else r c) (rows df)\<rparr>"

text \<open>
  Arithmetic on two series is element by element. A missing operand gives a missing
  result; a string or a date raises \<^verbatim>\<open>TypeError\<close>; a zero divisor raises.
\<close>

fun cell_mul :: "cell \<Rightarrow> cell \<Rightarrow> error + cell" where
  "cell_mul NA _ = Inr NA"
| "cell_mul _ NA = Inr NA"
| "cell_mul (Num a) (Num b) = Inr (Num (a * b))"
| "cell_mul _ _ = Inl TypeError"

fun cell_div :: "cell \<Rightarrow> cell \<Rightarrow> error + cell" where
  "cell_div NA _ = Inr NA"
| "cell_div _ NA = Inr NA"
| "cell_div (Num a) (Num b) = (if b = 0 then Inl ZeroDivisionError else Inr (Num (a / b)))"
| "cell_div _ _ = Inl TypeError"

definition series_op :: "(cell \<Rightarrow> cell \<Rightarrow> error + cell) \<Rightarrow> cell list \<Rightarrow> cell list \<Rightarrow> error + cell list" where
  "series_op f xs ys = traverse (\<lambda>(x, y). f x y) (zip xs ys)"

section \<open>Normalising enumerated fields\<close>

text \<open>
  \<^verbatim>\<open>s.find('.')\<close> is the index of the first full stop, or \<open>-1\<close>; \<^verbatim>\<open>s[s.find('.') + 1:]\<close>
  is what follows it (lines 74-77 and 99-105 of \<^verbatim>\<open>datapreparer.py\<close>).
\<close>

fun str_find :: "string \<Rightarrow> char \<Rightarrow> int" where
  "str_find [] c = - 1"
| "str_find (x # xs) c =
     (if x = c then 0 else (let k = str_find xs c in if k < 0 then - 1 else k + 1))"

definition strip_qualifier :: "string \<Rightarrow> string" where
  "strip_qualifier s = drop (nat (str_find s CHR ''.'' + 1)) s"

text \<open>
  What the specification asks for: the substring after the last qualifier separator.
  This definition follows the words of the specification, not the code.
\<close>

fun spec_after_last_separator :: "string \<Rightarrow> string" where
  "spec_after_last_separator [] = []"
| "spec_after_last_separator (x # xs) =
     (if CHR ''.'' \<in> set xs then spec_after_last_separator xs
      else if x = CHR ''.'' then xs else x # xs)"

section \<open>Raw records\<close>

text \<open>
  The records of the brokerage client, with the fields \<^verbatim>\<open>_to_DataFrame\<close> reads.
  \<open>instrument_type\<close> and \<open>operation_type\<close> hold what \<^verbatim>\<open>str(...)\<close> returns for the field.
  An optional field is \<open>None\<close> when the source object holds \<^verbatim>\<open>None\<close>.
\<close>

record MoneyAmount =
  m_currency :: string
  m_value :: rat

record PortfolioPosition =
  figi :: string
  ticker :: "string option"
  name :: "string option"
  average_position_price :: "MoneyAmount option"
  expected_yield :: "MoneyAmount option"
  balance :: rat
  instrument_type :: string

record Operation =
  op_id :: string
  op_figi :: "string option"
  op_date :: date
  payment :: rat
  commission :: "MoneyAmount option"
  op_currency :: string
  quantity_executed :: "rat option"
  op_instrument_type :: "string option"
  operation_type :: string

type_synonym rate_snapshot = "(string \<times> rat) list"

type_synonym account_data = "PortfolioPosition list \<times> Operation list \<times> rate_snapshot"

definition opt_str :: "string option \<Rightarrow> cell" where
  "opt_str x = (case x of None \<Rightarrow> NA | Some s \<Rightarrow> Str s)"

definition opt_num :: "rat option \<Rightarrow> cell" where
  "opt_num x = (case x of None \<Rightarrow> NA | Some v \<Rightarrow> Num v)"

text \<open>
  \<^verbatim>\<open>if account_name: df['account'] = account_name\<close>: the test holds for a string that is
  neither \<^verbatim>\<open>None\<close> nor empty.
\<close>

definition tag_frame :: "string option \<Rightarrow> frame \<Rightarrow> frame" where
  "tag_frame account_name df =
     (case account_name of
        None \<Rightarrow> df
      | Some a \<Rightarrow> if a \<noteq> [] then setitem_scalar df ''account'' (Str a) else df)"

section \<open>\<^verbatim>\<open>_to_DataFrame\<close>\<close>

definition portfolio_columns :: "string list" where
  "portfolio_columns =
     [''figi'', ''ticker'', ''name'', ''cost'', ''yield'', ''value'', ''currency'', ''balance'',
      ''instrument'']"

definition operations_columns :: "string list" where
  "operations_columns =
     [''id'', ''figi'', ''date'', ''payment'', ''commission'', ''currency'', ''quantity'',
      ''instrument'', ''operation'']"

text \<open>
  One row of the positions table (lines 73-86). Reading \<^verbatim>\<open>.currency\<close> or \<^verbatim>\<open>.value\<close> of an
  absent amount raises \<^verbatim>\<open>AttributeError\<close>.
\<close>

definition position_row :: "PortfolioPosition \<Rightarrow> error + cell list" where
  "position_row p =
     (case expected_yield p of
        None \<Rightarrow> Inl AttributeError
      | Some y \<Rightarrow>
          (case average_position_price p of
             None \<Rightarrow> Inl AttributeError
           | Some a \<Rightarrow>
               Inr [Str (figi p), opt_str (ticker p), opt_str (name p), Num (m_value a),
                    Num (m_value y), Num (m_value a * balance p + m_value y),
                    Str (strip_qualifier (m_currency y)), Num (balance p),
                    Str (strip_qualifier (instrument_type p))]))"

text \<open>
  One row of the operations table (lines 98-114). \<^verbatim>\<open>str(None)\<close> is the non-empty string
  \<^verbatim>\<open>'None'\<close>, so an absent instrument type is written as that string.
\<close>

definition operation_row :: "Operation \<Rightarrow> cell list" where
  "operation_row oper =
     (let inst_type = (case op_instrument_type oper of None \<Rightarrow> ''None'' | Some t \<Rightarrow> t)
      in [Str (op_id oper), opt_str (op_figi oper), Date (op_date oper), Num (payment oper),
          (case commission oper of None \<Rightarrow> NA | Some m \<Rightarrow> Num (m_value m)),
          Str (strip_qualifier (op_currency oper)), opt_num (quantity_executed oper),
          (if inst_type \<noteq> [] then Str (strip_qualifier inst_type) else NA),
          Str (strip_qualifier (operation_type oper))])"

definition rates_frame :: "rate_snapshot \<Rightarrow> frame" where
  "rates_frame exchange_rates =
     DataFrame (map (\<lambda>(k, v). [Str k, Num v]) exchange_rates) [''currency'', ''exchange_rate'']"

definition to_DataFrame :: "account_data \<Rightarrow> string option \<Rightarrow> error + frame \<times> frame \<times> frame" where
  "to_DataFrame data account_name =
     (case data of (portfolio, operations, exchange_rates) \<Rightarrow>
        and_then (traverse position_row portfolio) (\<lambda>prows.
          Inr (tag_frame account_name (DataFrame prows portfolio_columns),
               tag_frame account_name (DataFrame (map operation_row operations) operations_columns),
               tag_frame account_name (rates_frame exchange_rates))))"

section \<open>Joining and concatenating tables\<close>

text \<open>
  \<^verbatim>\<open>pd.merge(left, right, how='left', left_on=key, right_on=key)\<close>: every left row is kept,
  in order, once for each right row with the same key, or once with missing cells when
  no right row has its key. A column other than the key that both tables have is
  renamed with the suffixes \<^verbatim>\<open>_x\<close> and \<^verbatim>\<open>_y\<close>.
\<close>

definition join_rows :: "string list \<Rightarrow> (string \<Rightarrow> string) \<Rightarrow> string list \<Rightarrow> (string \<Rightarrow> string) \<Rightarrow> row \<Rightarrow> row \<Rightarrow> row" where
  "join_rows lcols lname rcols rname l r =
     (\<lambda>c. case List.find (\<lambda>d. rname d = c) rcols of
            Some d \<Rightarrow> r d
          | None \<Rightarrow> (case List.find (\<lambda>d. lname d = c) lcols of Some d \<Rightarrow> l d | None \<Rightarrow> NA))"

definition merge_left :: "frame \<Rightarrow> frame \<Rightarrow> string \<Rightarrow> error + frame" where
  "merge_left left right key =
     (if key \<in> set (columns left) \<and> key \<in> set (columns right)
      then
        let shared = filter (\<lambda>c. c \<noteq> key \<and> c \<in> set (columns right)) (columns left);
            lname = (\<lambda>c. if c \<in> set shared then c @ ''_x'' else c);
            rname = (\<lambda>c. if c \<in> set shared then c @ ''_y'' else c);
            rcols = filter (\<lambda>c. c \<noteq> key) (columns right);
            join = join_rows (columns left) lname rcols rname
        in Inr \<lparr>columns = map lname (columns left) @ map rname rcols,
                rows = concat (map (\<lambda>l.
                         let ms = filter (\<lambda>r. r key = l key) (rows right)
                         in if ms = [] then [join l (\<lambda>c. NA)] else map (join l) ms)
                       (rows left))\<rparr>
      else Inl (KeyError key))"

text \<open>\<^verbatim>\<open>df.values\<close>: the rows as lists of cells, in column order.\<close>

definition frame_values :: "frame \<Rightarrow> cell list list" where
  "frame_values df = map (\<lambda>r. map r (columns df)) (rows df)"

text \<open>\<^verbatim>\<open>df[[c1, c2]]\<close> raises \<^verbatim>\<open>KeyError\<close> when a label is not found.\<close>

definition select_columns :: "frame \<Rightarrow> string list \<Rightarrow> error + frame" where
  "select_columns df cs =
     (case filter (\<lambda>c. c \<notin> set (columns df)) cs of
        [] \<Rightarrow> Inr \<lparr>columns = cs, rows = map (\<lambda>r c. if c \<in> set cs then r c else NA) (rows df)\<rparr>
      | c # _ \<Rightarrow> Inl (KeyError c))"

text \<open>\<^verbatim>\<open>df.loc[mask, c] = df.loc[mask, d]\<close>\<close>

definition loc_assign :: "frame \<Rightarrow> bool list \<Rightarrow> string \<Rightarrow> string \<Rightarrow> error + frame" where
  "loc_assign df selected c d =
     (if d \<in> set (columns df)
      then Inr \<lparr>columns = add_column c (columns df),
                rows = map (\<lambda>(r, m). if m then r(c := r d) else r) (zip (rows df) selected)\<rparr>
      else Inl (KeyError d))"

text \<open>
  \<^verbatim>\<open>pd.concat(frames, ignore_index=True)\<close>: the columns are the union of the frames'
  columns in order of first appearance, the rows follow each other in the order of the
  frames, and a cell under a column its frame does not have is missing. An empty list
  of frames raises \<^verbatim>\<open>ValueError\<close>.
\<close>

definition union_columns :: "string list list \<Rightarrow> string list" where
  "union_columns colss = foldl (\<lambda>acc c. add_column c acc) [] (concat colss)"

definition reindex :: "frame \<Rightarrow> row list" where
  "reindex df = map (\<lambda>r c. if c \<in> set (columns df) then r c else NA) (rows df)"

definition concat_frames :: "frame list \<Rightarrow> error + frame" where
  "concat_frames fs =
     (if fs = [] then Inl ValueError
      else Inr \<lparr>columns = union_columns (map columns fs), rows = concat (map reindex fs)\<rparr>)"

section \<open>\<^verbatim>\<open>_currency_comparability\<close>\<close>

subsection \<open>Positions (lines 139-160)\<close>

text \<open>
  One round of the loop over \<^verbatim>\<open>exchange_rates.values\<close>. The first cell of a row of the
  rate table is a key of the rate dictionary, a string; the model raises
  \<^verbatim>\<open>TypeError\<close> for any other cell there, which \<^verbatim>\<open>_to_DataFrame\<close> never produces.
\<close>

definition position_step :: "bool list \<Rightarrow> frame \<Rightarrow> cell list \<Rightarrow> error + frame" where
  "position_step RUB_positions portfolio row =
     (case row of
        Str X # rate # _ \<Rightarrow>
          and_then (getattr portfolio ''value_RUB'') (\<lambda>value_RUB.
          and_then (traverse (\<lambda>v. cell_div v rate) value_RUB) (\<lambda>quotient.
          loc_assign (setitem portfolio (''value_'' @ X) quotient) RUB_positions
            (''value_'' @ X) ''value_RUB''))
      | [] \<Rightarrow> Inl IndexError
      | [_] \<Rightarrow> Inl IndexError
      | _ \<Rightarrow> Inl TypeError)"

definition convert_portfolio :: "frame \<Rightarrow> frame \<Rightarrow> error + frame" where
  "convert_portfolio portfolio exchange_rates =
     and_then (drop_column exchange_rates ''account'') (\<lambda>right.
     and_then (merge_left portfolio right ''currency'') (\<lambda>merged.
     let portfolio = fillna (Num 1) merged in
     and_then (getattr portfolio ''value'') (\<lambda>val.
     and_then (getattr portfolio ''exchange_rate'') (\<lambda>rate.
     and_then (series_op cell_mul val rate) (\<lambda>value_RUB.
     let portfolio = setitem portfolio ''value_RUB'' value_RUB in
     and_then (getattr portfolio ''currency'') (\<lambda>cur.
     let RUB_positions = map (\<lambda>c. c = Str ''RUB'') cur in
     and_then (foldM (position_step RUB_positions) portfolio (frame_values exchange_rates))
       (\<lambda>portfolio. drop_column portfolio ''exchange_rate'')))))))"

subsection \<open>Operations (lines 162-188)\<close>

text \<open>
  The historical-rate collaborator \<^verbatim>\<open>ExchangeRates(date)[code].rate\<close> (the package
  \<^verbatim>\<open>pycbrf\<close>) is not part of the repository: it is a parameter \<open>ER\<close>, which returns the
  rate of a currency on a date or raises.
\<close>

type_synonym rate_lookup = "date \<Rightarrow> string \<Rightarrow> error + rat"

definition historical_rate :: "rate_lookup \<Rightarrow> cell \<Rightarrow> cell \<Rightarrow> error + cell" where
  "historical_rate ER d c =
     (case d of
        Date day \<Rightarrow>
          (case c of
             Str code \<Rightarrow> (case ER day code of Inl e \<Rightarrow> Inl e | Inr r \<Rightarrow> Inr (Num r))
           | _ \<Rightarrow> Inl TypeError)
      | _ \<Rightarrow> Inl TypeError)"

text \<open>The two lambdas given to \<^verbatim>\<open>apply\<close> (lines 164 and 177-178).\<close>

definition base_rate :: "rate_lookup \<Rightarrow> row \<Rightarrow> error + cell" where
  "base_rate ER x =
     (if x ''currency'' \<noteq> Str ''RUB'' then historical_rate ER (x ''date'') (x ''currency'')
      else Inr (Num 1))"

definition target_rate :: "rate_lookup \<Rightarrow> cell \<Rightarrow> row \<Rightarrow> error + cell" where
  "target_rate ER currency x =
     (if x ''currency'' \<noteq> Str ''RUB'' then historical_rate ER (x ''date'') currency
      else Inr (Num 1))"

definition divide_columns :: "frame \<Rightarrow> string \<Rightarrow> string \<Rightarrow> string \<Rightarrow> error + frame" where
  "divide_columns df target a b =
     and_then (getattr df a) (\<lambda>xs.
     and_then (getattr df b) (\<lambda>ys.
     and_then (series_op cell_div xs ys) (\<lambda>q. Inr (setitem df target q))))"

definition multiply_columns :: "frame \<Rightarrow> string \<Rightarrow> string \<Rightarrow> string \<Rightarrow> error + frame" where
  "multiply_columns df target a b =
     and_then (getattr df a) (\<lambda>xs.
     and_then (getattr df b) (\<lambda>ys.
     and_then (series_op cell_mul xs ys) (\<lambda>q. Inr (setitem df target q))))"

definition operation_step :: "rate_lookup \<Rightarrow> frame \<Rightarrow> cell \<Rightarrow> error + frame" where
  "operation_step ER operations currency =
     and_then (select_columns operations [''date'', ''currency'']) (\<lambda>sub.
     and_then (traverse (target_rate ER currency) (rows sub)) (\<lambda>rates.
     let operations = setitem operations ''exchange_rate'' rates in
     (case currency of
        Str X \<Rightarrow>
          and_then (divide_columns operations (''payment_'' @ X) ''payment_RUB'' ''exchange_rate'')
            (\<lambda>operations.
               divide_columns operations (''commission_'' @ X) ''commission_RUB'' ''exchange_rate'')
      | _ \<Rightarrow> Inl TypeError)))"

definition convert_operations :: "rate_lookup \<Rightarrow> frame \<Rightarrow> frame \<Rightarrow> error + frame" where
  "convert_operations ER operations exchange_rates =
     and_then (select_columns operations [''date'', ''currency'']) (\<lambda>sub.
     and_then (traverse (base_rate ER) (rows sub)) (\<lambda>rates.
     let operations = setitem operations ''exchange_rate'' rates in
     and_then (multiply_columns operations ''payment_RUB'' ''payment'' ''exchange_rate'')
       (\<lambda>operations.
     and_then (multiply_columns operations ''commission_RUB'' ''commission'' ''exchange_rate'')
       (\<lambda>operations.
     and_then (getattr operations ''currency'') (\<lambda>RUB_positions.
     and_then (getattr exchange_rates ''currency'') (\<lambda>currencies.
     and_then (foldM (operation_step ER) operations currencies)
       (\<lambda>operations. drop_column operations ''exchange_rate'')))))))"

definition currency_comparability :: "rate_lookup \<Rightarrow> frame \<times> frame \<times> frame \<Rightarrow> error + frame \<times> frame \<times> frame" where
  "currency_comparability ER data =
     (case data of (portfolio, operations, exchange_rates) \<Rightarrow>
        and_then (convert_portfolio portfolio exchange_rates) (\<lambda>portfolio.
        and_then (convert_operations ER operations exchange_rates) (\<lambda>operations.
        Inr (portfolio, operations, exchange_rates))))"

section \<open>\<^verbatim>\<open>_prepare_data\<close> and \<^verbatim>\<open>concat_accounts\<close>\<close>

definition prepare_data :: "rate_lookup \<Rightarrow> PortfolioPosition list \<Rightarrow> Operation list \<Rightarrow> rate_snapshot \<Rightarrow> string option \<Rightarrow> error + frame \<times> frame \<times> frame" where
  "prepare_data ER portfolio operations exchange_rates account_name =
     and_then (to_DataFrame (portfolio, operations, exchange_rates) account_name)
       (currency_comparability ER)"

text \<open>
  The account mapping is a dictionary: a list of pairs in iteration order. The array of
  per-account triples is sliced by column (\<^verbatim>\<open>toconcat[:, col]\<close>); on an empty mapping the
  array has one dimension and the slice raises \<^verbatim>\<open>IndexError\<close>.
\<close>

definition concat_accounts :: "rate_lookup \<Rightarrow> (string \<times> account_data) list \<Rightarrow> error + frame \<times> frame \<times> frame" where
  "concat_accounts ER accounts =
     and_then (traverse (\<lambda>(key, val). case val of (portfolio, operations, exchange_rates) \<Rightarrow>
                  prepare_data ER portfolio operations exchange_rates (Some key)) accounts)
       (\<lambda>toconcat.
          if toconcat = [] then Inl IndexError
          else
            and_then (concat_frames (map fst toconcat)) (\<lambda>r0.
            and_then (concat_frames (map (\<lambda>t. fst (snd t)) toconcat)) (\<lambda>r1.
            and_then (concat_frames (map (\<lambda>t. snd (snd t)) toconcat)) (\<lambda>r2.
            Inr (r0, r1, r2)))))"

section \<open>The lookups of an account\<close>

text \<open>
  The pairs of a date and a currency code for which the operation conversion of one
  account asks the historical-rate collaborator: for every operation that is not in
  roubles, the operation's own currency (line 164) and every currency of the rate
  snapshot (lines 177-178), on the operation's date.
\<close>

definition issued_lookups :: "Operation list \<Rightarrow> rate_snapshot \<Rightarrow> (date \<times> string) list" where
  "issued_lookups operations exchange_rates =
     concat (map (\<lambda>oper.
       if strip_qualifier (op_currency oper) \<noteq> ''RUB''
       then (op_date oper, strip_qualifier (op_currency oper))
              # map (\<lambda>(k, v). (op_date oper, k)) exchange_rates
       else []) operations)"

text \<open>
  A cell that arithmetic accepts, and an operations table whose rows are those of a list
  of operations, with the columns the currency loop reads.
\<close>

definition numeric :: "cell \<Rightarrow> bool" where
  "numeric x = (case x of Num v \<Rightarrow> True | NA \<Rightarrow> True | Str s \<Rightarrow> False | Date d \<Rightarrow> False)"

definition ops_typed :: "Operation list \<Rightarrow> frame \<Rightarrow> bool" where
  "ops_typed operations df \<longleftrightarrow>
     length (rows df) = length operations
     \<and> ''date'' \<in> set (columns df) \<and> ''currency'' \<in> set (columns df)
     \<and> ''payment_RUB'' \<in> set (columns df) \<and> ''commission_RUB'' \<in> set (columns df)
     \<and> ''exchange_rate'' \<in> set (columns df)
     \<and> (\<forall>j<length operations.
           (rows df ! j) ''date'' = Date (op_date (operations ! j))
           \<and> (rows df ! j) ''currency'' = Str (strip_qualifier (op_currency (operations ! j)))
           \<and> numeric ((rows df ! j) ''payment_RUB'')
           \<and> numeric ((rows df ! j) ''commission_RUB''))"

section \<open>Example inputs\<close>

text \<open>
  A rouble position, a dollar position, a dollar operation, a rouble operation and a
  stub of the historical-rate collaborator that knows the dollar only.
\<close>

definition ex_position_rub :: PortfolioPosition where
  "ex_position_rub =
     \<lparr>figi = ''BBG004730N88'', ticker = Some ''SBER'', name = None,
      average_position_price = Some \<lparr>m_currency = ''RUB'', m_value = 100\<rparr>,
      expected_yield = Some \<lparr>m_currency = ''RUB'', m_value = 0\<rparr>,
      balance = 1, instrument_type = ''InstrumentType.Stock''\<rparr>"

definition ex_position_usd :: PortfolioPosition where
  "ex_position_usd =
     \<lparr>figi = ''BBG000B9XRY4'', ticker = Some ''AAPL'', name = Some ''Apple'',
      average_position_price = Some \<lparr>m_currency = ''USD'', m_value = 10\<rparr>,
      expected_yield = Some \<lparr>m_currency = ''USD'', m_value = 2\<rparr>,
      balance = 3, instrument_type = ''InstrumentType.Stock''\<rparr>"

definition ex_operation_usd :: Operation where
  "ex_operation_usd =
     \<lparr>op_id = ''1'', op_figi = Some ''BBG000B9XRY4'', op_date = 7, payment = 10,
      commission = Some \<lparr>m_currency = ''USD'', m_value = 1\<rparr>, op_currency = ''USD'',
      quantity_executed = Some 3, op_instrument_type = Some ''InstrumentType.Stock'',
      operation_type = ''OperationType.Buy''\<rparr>"

definition ex_operation_rub :: Operation where
  "ex_operation_rub =
     \<lparr>op_id = ''2'', op_figi = None, op_date = 8, payment = 100, commission = None,
      op_currency = ''RUB'', quantity_executed = None, op_instrument_type = None,
      operation_type = ''OperationType.PayIn''\<rparr>"

definition ex_lookup :: rate_lookup where
  "ex_lookup d c = (if c = ''USD'' then Inr 95 else Inl (RateUnavailableError d c))"

text \<open>Two accounts whose rate snapshots hold different currencies.\<close>

definition ex_accounts :: "(string \<times> account_data) list" where
  "ex_accounts =
     [(''Main'', ([ex_position_rub, ex_position_usd], [ex_operation_usd], [(''USD'', 90)])),
      (''Second'', ([ex_position_usd], [ex_operation_rub], [(''EUR'', 100)]))]"

definition is_ok :: "error + 'a \<Rightarrow> bool" where
  "is_ok m = (case m of Inl e \<Rightarrow> False | Inr x \<Rightarrow> True)"

section \<open>Notions used in the proofs\<close>

text \<open>
  The rate the left join finds for a currency cell (missing when the snapshot has no
  entry for it), and the columns of a tagged positions table.
\<close>

definition rate_cell :: "rate_snapshot \<Rightarrow> cell \<Rightarrow> cell" where
  "rate_cell xr kc = (case kc of Str k \<Rightarrow> (case map_of xr k of Some v \<Rightarrow> Num v | None \<Rightarrow> NA) | _ \<Rightarrow> NA)"

definition tagged_columns :: "string list" where
  "tagged_columns = portfolio_columns @ [''account'']"

section \<open>Basic facts\<close>

lemma and_then_Inr_iff:
  "and_then m f = Inr y \<longleftrightarrow> (\<exists>x. m = Inr x \<and> f x = Inr y)"
  by (cases m) (simp_all add: and_then_def)

lemma and_then_simps [simp]:
  "and_then (Inl e) f = Inl e"
  "and_then (Inr x) f = f x"
  by (simp_all add: and_then_def)

lemma traverse_Inr_length:
  "traverse f xs = Inr ys \<Longrightarrow> length ys = length xs"
  by (induction xs arbitrary: ys) (auto split: sum.splits)

lemma traverse_Inr_all_nth:
  "traverse f xs = Inr ys \<Longrightarrow> \<forall>i<length xs. f (xs ! i) = Inr (ys ! i)"
  by (induction xs arbitrary: ys) (auto simp: nth_Cons split: sum.splits nat.splits)

lemma traverse_Inr_nth:
  "traverse f xs = Inr ys \<Longrightarrow> i < length xs \<Longrightarrow> f (xs ! i) = Inr (ys ! i)"
  using traverse_Inr_all_nth by blast

lemma traverse_all_Inr:
  "(\<And>x. x \<in> set xs \<Longrightarrow> f x = Inr (g x)) \<Longrightarrow> traverse f xs = Inr (map g xs)"
  by (induction xs) simp_all

lemma traverse_Inl:
  "traverse f xs = Inl e \<Longrightarrow> \<exists>x \<in> set xs. f x = Inl e"
  by (induction xs) (auto split: sum.splits)

lemma str_find_absent: "c \<notin> set s \<Longrightarrow> str_find s c = - 1"
  by (induction s) (auto simp: Let_def)

lemma str_find_first: "c \<notin> set q \<Longrightarrow> str_find (q @ c # t) c = int (length q)"
  by (induction q) (auto simp: Let_def)

lemma strip_qualifier_no_separator: "CHR ''.'' \<notin> set s \<Longrightarrow> strip_qualifier s = s"
  by (simp add: strip_qualifier_def str_find_absent)

lemma strip_qualifier_first_separator:
  "CHR ''.'' \<notin> set q \<Longrightarrow> strip_qualifier (q @ CHR ''.'' # t) = t"
  by (simp add: strip_qualifier_def str_find_first nat_add_distrib)

lemma spec_after_last_separator_last:
  "CHR ''.'' \<notin> set t \<Longrightarrow> spec_after_last_separator (q @ CHR ''.'' # t) = t"
  by (induction q) simp_all

lemma is_ok_obtain: "is_ok m \<Longrightarrow> \<exists>x. m = Inr x"
  by (cases m) (simp_all add: is_ok_def)

section \<open>The tables of \<^verbatim>\<open>_to_DataFrame\<close>\<close>

lemma rows_tag_frame:
  "rows (tag_frame acct df) =
     (case acct of
        None \<Rightarrow> rows df
      | Some a \<Rightarrow> if a \<noteq> [] then map (\<lambda>r. r(''account'' := Str a)) (rows df) else rows df)"
  by (simp add: tag_frame_def setitem_scalar_def split: option.splits)

lemma length_rows_tag_frame [simp]: "length (rows (tag_frame acct df)) = length (rows df)"
  by (simp add: rows_tag_frame split: option.splits)

lemma tag_frame_other_cell:
  "i < length (rows df) \<Longrightarrow> c \<noteq> ''account'' \<Longrightarrow> (rows (tag_frame acct df) ! i) c = (rows df ! i) c"
  by (simp add: rows_tag_frame split: option.splits)

lemma to_DataFrame_Inr:
  assumes "to_DataFrame (ps, os, xr) acct = Inr (P, Q, E)"
  shows "\<exists>prows. traverse position_row ps = Inr prows
           \<and> P = tag_frame acct (DataFrame prows portfolio_columns)
           \<and> Q = tag_frame acct (DataFrame (map operation_row os) operations_columns)
           \<and> E = tag_frame acct (rates_frame xr)"
  using assms by (auto simp: to_DataFrame_def and_then_Inr_iff)

lemma position_row_Inr:
  assumes "position_row p = Inr vals"
  shows "\<exists>y a. expected_yield p = Some y \<and> average_position_price p = Some a
           \<and> vals = [Str (figi p), opt_str (ticker p), opt_str (name p), Num (m_value a),
                    Num (m_value y), Num (m_value a * balance p + m_value y),
                    Str (strip_qualifier (m_currency y)), Num (balance p),
                    Str (strip_qualifier (instrument_type p))]"
  using assms by (auto simp: position_row_def split: option.splits)

section \<open>Enumerated fields\<close>

text \<open>
  C6, as the code has it. A qualified name \<open>q.t\<close> whose qualifier \<open>q\<close> has no separator
  is reduced to \<open>t\<close>, the text after the first separator; a value with no separator is
  passed through unchanged; an empty result is possible and no exception is raised for
  any value. The instrument, operation and currency cells of the tables of
  \<^verbatim>\<open>_to_DataFrame\<close> hold the fields reduced this way.
\<close>

theorem enum_fields_after_first_separator:
  "(CHR ''.'' \<notin> set q \<longrightarrow> strip_qualifier (q @ CHR ''.'' # t) = t)
   \<and> (CHR ''.'' \<notin> set s \<longrightarrow> strip_qualifier s = s)
   \<and> (to_DataFrame (ps, os, xr) acct = Inr (P, Q, E) \<longrightarrow>
        length (rows P) = length ps \<and> length (rows Q) = length os
        \<and> (\<forall>i<length ps.
              (rows P ! i) ''instrument'' = Str (strip_qualifier (instrument_type (ps ! i)))
              \<and> (\<exists>y. expected_yield (ps ! i) = Some y
                    \<and> (rows P ! i) ''currency'' = Str (strip_qualifier (m_currency y))))
        \<and> (\<forall>j<length os.
              (rows Q ! j) ''operation'' = Str (strip_qualifier (operation_type (os ! j)))
              \<and> (rows Q ! j) ''currency'' = Str (strip_qualifier (op_currency (os ! j)))))"
proof (intro conjI impI)
  assume ok: "to_DataFrame (ps, os, xr) acct = Inr (P, Q, E)"
  then obtain prows where tr: "traverse position_row ps = Inr prows"
    and P: "P = tag_frame acct (DataFrame prows portfolio_columns)"
    and Q: "Q = tag_frame acct (DataFrame (map operation_row os) operations_columns)"
    using to_DataFrame_Inr by blast
  have len: "length prows = length ps"
    using tr by (rule traverse_Inr_length)
  show "length (rows P) = length ps"
    by (simp add: P DataFrame_def len)
  show "length (rows Q) = length os"
    by (simp add: Q DataFrame_def)
  show "\<forall>i<length ps.
          (rows P ! i) ''instrument'' = Str (strip_qualifier (instrument_type (ps ! i)))
          \<and> (\<exists>y. expected_yield (ps ! i) = Some y
                \<and> (rows P ! i) ''currency'' = Str (strip_qualifier (m_currency y)))"
  proof (intro allI impI)
    fix i assume i: "i < length ps"
    from position_row_Inr [OF traverse_Inr_nth [OF tr i]]
    obtain y :: MoneyAmount and a :: MoneyAmount where y: "expected_yield (ps ! i) = Some y"
      and v: "prows ! i = [Str (figi (ps ! i)), opt_str (ticker (ps ! i)), opt_str (name (ps ! i)),
                Num (m_value a), Num (m_value y),
                Num (m_value a * balance (ps ! i) + m_value y),
                Str (strip_qualifier (m_currency y)), Num (balance (ps ! i)),
                Str (strip_qualifier (instrument_type (ps ! i)))]"
      by blast
    have r: "rows (DataFrame prows portfolio_columns) ! i = row_of portfolio_columns (prows ! i)"
      using i len by (simp add: DataFrame_def)
    have "(rows P ! i) ''instrument'' = Str (strip_qualifier (instrument_type (ps ! i)))"
      using i len by (simp add: P tag_frame_other_cell DataFrame_def r v row_of_def portfolio_columns_def)
    moreover have "(rows P ! i) ''currency'' = Str (strip_qualifier (m_currency y))"
      using i len by (simp add: P tag_frame_other_cell DataFrame_def r v row_of_def portfolio_columns_def)
    ultimately show "(rows P ! i) ''instrument'' = Str (strip_qualifier (instrument_type (ps ! i)))
          \<and> (\<exists>y. expected_yield (ps ! i) = Some y
                \<and> (rows P ! i) ''currency'' = Str (strip_qualifier (m_currency y)))"
      using y by simp
  qed
  show "\<forall>j<length os.
          (rows Q ! j) ''operation'' = Str (strip_qualifier (operation_type (os ! j)))
          \<and> (rows Q ! j) ''currency'' = Str (strip_qualifier (op_currency (os ! j)))"
    by (simp add: Q tag_frame_other_cell DataFrame_def row_of_def operations_columns_def
        operation_row_def Let_def)
qed (simp_all add: strip_qualifier_first_separator strip_qualifier_no_separator)

theorem enum_fields_after_first_separator_witness:
  "strip_qualifier ''InstrumentType.Stock'' = ''Stock''
   \<and> strip_qualifier ''Stock'' = ''Stock''
   \<and> (\<exists>P Q E. to_DataFrame ([ex_position_usd], [ex_operation_usd], [(''USD'', 90)]) (Some ''Main'')
                 = Inr (P, Q, E)
        \<and> (rows P ! 0) ''instrument'' = Str ''Stock''
        \<and> (rows Q ! 0) ''operation'' = Str ''Buy'')"
proof -
  have "is_ok (to_DataFrame ([ex_position_usd], [ex_operation_usd], [(''USD'', 90)]) (Some ''Main''))"
    by code_simp
  then obtain P Q E where
    ok: "to_DataFrame ([ex_position_usd], [ex_operation_usd], [(''USD'', 90)]) (Some ''Main'')
           = Inr (P, Q, E)"
    using is_ok_obtain by (metis prod_cases3)
  have a: "CHR ''.'' \<notin> set ''InstrumentType''" and b: "CHR ''.'' \<notin> set ''Stock''"
    by simp_all
  have c: "strip_qualifier ''OperationType.Buy'' = ''Buy''"
    by code_simp
  from enum_fields_after_first_separator
    [of "''InstrumentType''" "''Stock''" "''Stock''" "[ex_position_usd]" "[ex_operation_usd]"
        "[(''USD'', 90)]" "Some ''Main''" P Q E]
  show ?thesis
    using ok a b c by (simp add: ex_position_usd_def ex_operation_usd_def)
qed

text \<open>
  C6, as the specification states it, fails: for a name with two separators the code
  keeps everything after the first one, not the text after the last one.
\<close>

theorem enum_fields_last_separator_counterexample:
  "strip_qualifier ''Kind.Sub.Stock'' \<noteq> spec_after_last_separator ''Kind.Sub.Stock''"
  by code_simp

section \<open>The untagged pipeline\<close>

text \<open>
  C9. With the account name omitted, \<^verbatim>\<open>_to_DataFrame\<close> writes no account column, and
  \<^verbatim>\<open>_currency_comparability\<close> then drops that column from the rate table without
  looking whether it is there: \<^verbatim>\<open>_prepare_data\<close> raises for every input. When the
  positions are well formed the exception is the \<^verbatim>\<open>KeyError\<close> of the drop.
\<close>

theorem prepare_data_untagged_raises:
  "prepare_data ER ps os xr None =
     (case traverse position_row ps of
        Inl e \<Rightarrow> Inl e
      | Inr prows \<Rightarrow> Inl (KeyError ''account''))"
  by (simp add: prepare_data_def to_DataFrame_def currency_comparability_def
      convert_portfolio_def tag_frame_def drop_column_def rates_frame_def DataFrame_def
      and_then_def split: sum.splits)

section \<open>Position conversion\<close>

lemma tagged_rates_frame:
  "a \<noteq> [] \<Longrightarrow> tag_frame (Some a) (rates_frame xr) =
     \<lparr>columns = [''currency'', ''exchange_rate'', ''account''],
      rows = map (\<lambda>(k, v) c. if c = ''account'' then Str a else if c = ''currency'' then Str k
                       else if c = ''exchange_rate'' then Num v else NA) xr\<rparr>"
  by (auto simp: tag_frame_def rates_frame_def DataFrame_def setitem_scalar_def add_column_def
      row_of_def fun_eq_iff)

lemma frame_values_tagged_rates:
  "a \<noteq> [] \<Longrightarrow> frame_values (tag_frame (Some a) (rates_frame xr)) = map (\<lambda>(k, v). [Str k, Num v, Str a]) xr"
  by (auto simp: tagged_rates_frame frame_values_def)

lemma drop_account_tagged_rates:
  "a \<noteq> [] \<Longrightarrow> drop_column (tag_frame (Some a) (rates_frame xr)) ''account'' =
     Inr \<lparr>columns = [''currency'', ''exchange_rate''],
          rows = map (\<lambda>(k, v) c. if c = ''currency'' then Str k
                       else if c = ''exchange_rate'' then Num v else NA) xr\<rparr>"
  by (auto simp: tagged_rates_frame drop_column_def fun_eq_iff)

lemma filter_key:
  "distinct (map fst xr) \<Longrightarrow>
   filter (\<lambda>(k', v). k' = k) xr = (case map_of xr k of Some v \<Rightarrow> [(k, v)] | None \<Rightarrow> [])"
proof (induction xr)
  case Nil
  then show ?case by simp
next
  case (Cons x xr)
  obtain k' v where x: "x = (k', v)" by (cases x)
  show ?case
  proof (cases "k' = k")
    case True
    with Cons x have "map_of xr k = None"
      by (auto simp: map_of_eq_None_iff)
    with Cons x True show ?thesis by simp
  next
    case False
    with Cons x show ?thesis by simp
  qed
qed

lemma find_eq: "List.find (\<lambda>d. d = c) xs = (if c \<in> set xs then Some c else None)"
  by (induction xs) auto

lemma merge_rates:
  assumes cols: "columns pf = tagged_columns" and d: "distinct (map fst xr)"
  shows "merge_left pf
           \<lparr>columns = [''currency'', ''exchange_rate''],
            rows = map (\<lambda>(k, v) c. if c = ''currency'' then Str k
                       else if c = ''exchange_rate'' then Num v else NA) xr\<rparr> ''currency'' =
         Inr \<lparr>columns = tagged_columns @ [''exchange_rate''],
              rows = map (\<lambda>l c. if c = ''exchange_rate'' then rate_cell xr (l ''currency'')
                               else if c \<in> set tagged_columns then l c else NA) (rows pf)\<rparr>"
proof -
  let ?g = "\<lambda>(k, v) c. if c = ''currency'' then Str k
                       else if c = ''exchange_rate'' then Num v else NA"
  have flt: "filter (\<lambda>r. r ''currency'' = kc) (map ?g xr) =
       (case kc of Str k \<Rightarrow> (case map_of xr k of Some v \<Rightarrow> [?g (k, v)] | None \<Rightarrow> []) | _ \<Rightarrow> [])" for kc
  proof -
    have "filter (\<lambda>r. r ''currency'' = kc) (map ?g xr) = map ?g (filter (\<lambda>(k, v). Str k = kc) xr)"
      by (simp add: filter_map o_def case_prod_unfold)
    also have "filter (\<lambda>(k, v). Str k = kc) xr =
       (case kc of Str k \<Rightarrow> (case map_of xr k of Some v \<Rightarrow> [(k, v)] | None \<Rightarrow> []) | _ \<Rightarrow> [])"
    proof (cases kc)
      case (Str k)
      then show ?thesis using filter_key [OF d, of k] by simp
    qed (simp_all add: case_prod_unfold)
    finally show ?thesis by (simp split: cell.splits option.splits)
  qed
  let ?join = "join_rows tagged_columns (\<lambda>c. c) [''exchange_rate''] (\<lambda>c. c)"
  let ?h = "\<lambda>l c. if c = ''exchange_rate'' then rate_cell xr (l ''currency'')
                   else if c \<in> set tagged_columns then l c else NA"
  have join: "?join l r = (\<lambda>c. if c = ''exchange_rate'' then r ''exchange_rate''
                               else if c \<in> set tagged_columns then l c else NA)" for l r
    by (auto simp: join_rows_def find_eq fun_eq_iff)
  have row: "(let ms = filter (\<lambda>r. r ''currency'' = l ''currency'') (map ?g xr)
              in if ms = [] then [?join l (\<lambda>c. NA)] else map (?join l) ms) = [?h l]" for l
    by (auto simp: flt join rate_cell_def Let_def fun_eq_iff split: cell.splits option.splits)
  have shared: "filter (\<lambda>c. c \<noteq> ''currency'' \<and> c \<in> set [''currency'', ''exchange_rate'']) tagged_columns = []"
    by (simp add: tagged_columns_def portfolio_columns_def)
  have key: "''currency'' \<in> set tagged_columns"
    by (simp add: tagged_columns_def portfolio_columns_def)
  have "merge_left pf \<lparr>columns = [''currency'', ''exchange_rate''], rows = map ?g xr\<rparr> ''currency'' =
        Inr \<lparr>columns = tagged_columns @ [''exchange_rate''],
             rows = concat (map (\<lambda>l. let ms = filter (\<lambda>r. r ''currency'' = l ''currency'') (map ?g xr)
              in if ms = [] then [?join l (\<lambda>c. NA)] else map (?join l) ms) (rows pf))\<rparr>"
    unfolding merge_left_def Let_def
    apply (simp only: frame.select_convs cols shared)
    apply (simp add: key cong: if_cong)
    done
  also have "concat (map (\<lambda>l. let ms = filter (\<lambda>r. r ''currency'' = l ''currency'') (map ?g xr)
              in if ms = [] then [?join l (\<lambda>c. NA)] else map (?join l) ms) (rows pf)) = map ?h (rows pf)"
    unfolding row by (induction "rows pf") simp_all
  finally show ?thesis .
qed


lemma add_column_idem [simp]: "add_column c (add_column c cols) = add_column c cols"
  by (simp add: add_column_def)

lemma set_add_column [simp]: "set (add_column c cols) = insert c (set cols)"
  by (auto simp: add_column_def)

lemma traverse_map: "traverse f (map g xs) = traverse (\<lambda>x. f (g x)) xs"
  by (induction xs) (simp_all split: sum.splits)

lemma series_op_map: "series_op f (map g xs) (map h xs) = traverse (\<lambda>x. f (g x) (h x)) xs"
  unfolding series_op_def by (induction xs) (simp_all split: sum.splits)

lemma cell_div_Num:
  "cell_div (Num v) (Num r) = Inr q \<Longrightarrow> r \<noteq> 0 \<and> q = Num (v / r)"
  by (auto split: if_splits)

lemma cell_mul_filled:
  "cell_mul x y = Inr q \<Longrightarrow> x \<noteq> NA \<Longrightarrow> y \<noteq> NA \<Longrightarrow> \<exists>v r. x = Num v \<and> y = Num r \<and> q = Num (v * r)"
  by (cases x; cases y) auto

lemma position_step_Inr:
  assumes step: "position_step sel f [Str X, rate, t] = Inr f'"
    and len: "length sel = length (rows f)"
  shows "''value_RUB'' \<in> set (columns f)"
    and "columns f' = add_column (''value_'' @ X) (columns f)"
    and "length (rows f') = length (rows f)"
    and "\<forall>i<length (rows f). \<exists>q. cell_div ((rows f ! i) ''value_RUB'') rate = Inr q
            \<and> rows f' ! i = (let r1 = (rows f ! i)(''value_'' @ X := q)
                             in if sel ! i then r1(''value_'' @ X := r1 ''value_RUB'') else r1)"
proof -
  from step obtain vs q where
    g: "getattr f ''value_RUB'' = Inr vs" and
    t: "traverse (\<lambda>v. cell_div v rate) vs = Inr q" and
    l: "loc_assign (setitem f (''value_'' @ X) q) sel (''value_'' @ X) ''value_RUB'' = Inr f'"
    by (auto simp: position_step_def and_then_Inr_iff)
  from g show c: "''value_RUB'' \<in> set (columns f)"
    by (auto simp: getattr_def split: if_splits)
  from g have vs: "vs = map (\<lambda>r. r ''value_RUB'') (rows f)"
    by (auto simp: getattr_def split: if_splits)
  have lq: "length q = length (rows f)"
    using traverse_Inr_length [OF t] by (simp add: vs)
  from l have f': "f' = \<lparr>columns = add_column (''value_'' @ X) (columns f),
      rows = map (\<lambda>(r, m). if m then r(''value_'' @ X := r ''value_RUB'') else r)
               (zip (map (\<lambda>(r, v). r(''value_'' @ X := v)) (zip (rows f) q)) sel)\<rparr>"
    by (auto simp: loc_assign_def setitem_def split: if_splits)
  show "columns f' = add_column (''value_'' @ X) (columns f)"
    by (simp add: f')
  show "length (rows f') = length (rows f)"
    by (simp add: f' lq len)
  show "\<forall>i<length (rows f). \<exists>q. cell_div ((rows f ! i) ''value_RUB'') rate = Inr q
            \<and> rows f' ! i = (let r1 = (rows f ! i)(''value_'' @ X := q)
                             in if sel ! i then r1(''value_'' @ X := r1 ''value_RUB'') else r1)"
  proof (intro allI impI)
    fix i assume i: "i < length (rows f)"
    have "cell_div ((rows f ! i) ''value_RUB'') rate = Inr (q ! i)"
      using traverse_Inr_nth [OF t, of i] i by (simp add: vs)
    moreover have "rows f' ! i = (let r1 = (rows f ! i)(''value_'' @ X := q ! i)
                             in if sel ! i then r1(''value_'' @ X := r1 ''value_RUB'') else r1)"
      using i lq len by (simp add: f' Let_def)
    ultimately show "\<exists>q. cell_div ((rows f ! i) ''value_RUB'') rate = Inr q
            \<and> rows f' ! i = (let r1 = (rows f ! i)(''value_'' @ X := q)
                             in if sel ! i then r1(''value_'' @ X := r1 ''value_RUB'') else r1)"
      by blast
  qed
qed


lemma value_name_inj [simp]: "(''value_'' @ X = ''value_'' @ Y) = (X = Y)"
  by simp

lemma position_step_cells:
  assumes step: "position_step sel f [Str X, Num rx, t] = Inr f'"
    and len: "length sel = length (rows f)"
    and i: "i < length (rows f)"
    and v: "(rows f ! i) ''value_RUB'' = Num v"
    and rub: "X = ''RUB'' \<longrightarrow> rx = 1"
  shows "rx \<noteq> 0"
    and "(rows f' ! i) ''value_RUB'' = Num v"
    and "c \<noteq> ''value_'' @ X \<Longrightarrow> (rows f' ! i) c = (rows f ! i) c"
    and "(rows f' ! i) (''value_'' @ X) = (if sel ! i then Num v else Num (v / rx))"
proof -
  from position_step_Inr(4) [OF step len, rule_format, OF i] obtain q where
    q: "cell_div ((rows f ! i) ''value_RUB'') (Num rx) = Inr q" and
    r: "rows f' ! i = (let r1 = (rows f ! i)(''value_'' @ X := q)
                       in if sel ! i then r1(''value_'' @ X := r1 ''value_RUB'') else r1)"
    by blast
  from q have "cell_div (Num v) (Num rx) = Inr q" by (simp add: v)
  from cell_div_Num [OF this] have rx: "rx \<noteq> 0" and qv: "q = Num (v / rx)"
    by simp_all
  show "rx \<noteq> 0" by (rule rx)
  show "(rows f' ! i) ''value_RUB'' = Num v"
  proof (cases "X = ''RUB''")
    case True
    then have "rx = 1" using rub by simp
    then show ?thesis using True by (simp add: r Let_def qv v)
  next
    case False
    then have "''value_RUB'' \<noteq> ''value_'' @ X" by simp
    then show ?thesis by (simp add: r Let_def v)
  qed
  show "c \<noteq> ''value_'' @ X \<Longrightarrow> (rows f' ! i) c = (rows f ! i) c"
    by (simp add: r Let_def)
  show "(rows f' ! i) (''value_'' @ X) = (if sel ! i then Num v else Num (v / rx))"
  proof (cases "X = ''RUB''")
    case True
    then have "rx = 1" using rub by simp
    then show ?thesis using True by (simp add: r Let_def qv v)
  next
    case False
    then have "''value_RUB'' \<noteq> ''value_'' @ X" by simp
    then show ?thesis by (simp add: r Let_def v qv)
  qed
qed

lemma position_loop:
  assumes "foldM (position_step sel) f (map (\<lambda>(k, v). [Str k, Num v, Str a]) xs) = Inr f'"
    and "length sel = length (rows f)"
    and "distinct (map fst xs)"
    and "\<forall>(X, rx) \<in> set xs. X = ''RUB'' \<longrightarrow> rx = 1"
    and "\<forall>i<length (rows f). \<exists>v. (rows f ! i) ''value_RUB'' = Num v"
  shows "length (rows f') = length (rows f)
    \<and> set (columns f') = set (columns f) \<union> (\<lambda>k. ''value_'' @ k) ` fst ` set xs
    \<and> (\<forall>i<length (rows f). (rows f' ! i) ''value_RUB'' = (rows f ! i) ''value_RUB'')
    \<and> (\<forall>i<length (rows f). \<forall>c. c \<notin> (\<lambda>k. ''value_'' @ k) ` fst ` set xs \<longrightarrow>
           (rows f' ! i) c = (rows f ! i) c)
    \<and> (\<forall>i<length (rows f). \<forall>(X, rx) \<in> set xs. \<exists>v. (rows f ! i) ''value_RUB'' = Num v \<and> rx \<noteq> 0
           \<and> (rows f' ! i) (''value_'' @ X) = (if sel ! i then Num v else Num (v / rx)))"
  using assms
proof (induction xs arbitrary: f)
  case Nil
  then show ?case by simp
next
  case (Cons x xs)
  obtain X rx where x: "x = (X, rx)" by (cases x)
  from Cons.prems(1) obtain f1 where
    step: "position_step sel f [Str X, Num rx, Str a] = Inr f1" and
    rest: "foldM (position_step sel) f1 (map (\<lambda>(k, v). [Str k, Num v, Str a]) xs) = Inr f'"
    by (simp add: x split: sum.splits)
  note len = Cons.prems(2)
  have rub: "X = ''RUB'' \<longrightarrow> rx = 1"
    using Cons.prems(4) by (simp add: x)
  have len1: "length (rows f1) = length (rows f)"
    by (rule position_step_Inr(3) [OF step len])
  have cols1: "columns f1 = add_column (''value_'' @ X) (columns f)"
    by (rule position_step_Inr(2) [OF step len])
  have num: "\<exists>v. (rows f ! i) ''value_RUB'' = Num v" if "i < length (rows f)" for i
    using Cons.prems(5) that by blast
  have cell1: "(rows f1 ! i) ''value_RUB'' = (rows f ! i) ''value_RUB''" if "i < length (rows f)" for i
  proof -
    from num [OF that] obtain v where v: "(rows f ! i) ''value_RUB'' = Num v" by blast
    from position_step_cells(2) [OF step len that v rub] show ?thesis by (simp add: v)
  qed
  have inv1: "\<forall>i<length (rows f1). \<exists>v. (rows f1 ! i) ''value_RUB'' = Num v"
    using num cell1 len1 by simp
  have d: "distinct (map fst xs)" and nin: "X \<notin> fst ` set xs"
    using Cons.prems(3) by (simp_all add: x)
  have h: "\<forall>(X, rx) \<in> set xs. X = ''RUB'' \<longrightarrow> rx = 1"
    using Cons.prems(4) by simp
  have len': "length sel = length (rows f1)"
    using len len1 by simp
  note IH = Cons.IH [OF rest len' d h inv1, unfolded len1]
  note IH1 = IH [THEN conjunct1]
  note IH2 = IH [THEN conjunct2, THEN conjunct1]
  note IH3 = IH [THEN conjunct2, THEN conjunct2, THEN conjunct1, rule_format]
  note IH4 = IH [THEN conjunct2, THEN conjunct2, THEN conjunct2, THEN conjunct1, rule_format]
  note IH5 = IH [THEN conjunct2, THEN conjunct2, THEN conjunct2, THEN conjunct2, rule_format]
  have A: "length (rows f') = length (rows f)"
    by (rule IH1)
  have B: "set (columns f') = set (columns f) \<union> (\<lambda>k. ''value_'' @ k) ` fst ` set (x # xs)"
    unfolding IH2 cols1 by (simp add: x)
  have C: "\<forall>i<length (rows f). (rows f' ! i) ''value_RUB'' = (rows f ! i) ''value_RUB''"
    using IH3 cell1 by simp
  have D: "\<forall>i<length (rows f). \<forall>c. c \<notin> (\<lambda>k. ''value_'' @ k) ` fst ` set (x # xs) \<longrightarrow>
           (rows f' ! i) c = (rows f ! i) c"
  proof (intro allI impI)
    fix i c assume i: "i < length (rows f)" and c: "c \<notin> (\<lambda>k. ''value_'' @ k) ` fst ` set (x # xs)"
    from num [OF i] obtain v where v: "(rows f ! i) ''value_RUB'' = Num v" by blast
    have cX: "c \<noteq> ''value_'' @ X" and cxs: "c \<notin> (\<lambda>k. ''value_'' @ k) ` fst ` set xs"
      using c by (simp_all add: x)
    from position_step_cells(3) [OF step len i v rub cX]
    have "(rows f1 ! i) c = (rows f ! i) c" .
    moreover have "(rows f' ! i) c = (rows f1 ! i) c"
      by (rule IH4 [OF i cxs])
    ultimately show "(rows f' ! i) c = (rows f ! i) c" by simp
  qed
  have E: "\<forall>i<length (rows f). \<forall>(Y, ry) \<in> set (x # xs). \<exists>v. (rows f ! i) ''value_RUB'' = Num v \<and> ry \<noteq> 0
           \<and> (rows f' ! i) (''value_'' @ Y) = (if sel ! i then Num v else Num (v / ry))"
  proof (intro allI impI ballI)
    fix i p assume i: "i < length (rows f)" and p: "p \<in> set (x # xs)"
    obtain Y ry where Y: "p = (Y, ry)" by (cases p)
    from num [OF i] obtain v where v: "(rows f ! i) ''value_RUB'' = Num v" by blast
    have "ry \<noteq> 0 \<and> (rows f' ! i) (''value_'' @ Y) = (if sel ! i then Num v else Num (v / ry))"
    proof (cases "p = x")
      case True
      then have YX: "Y = X" "ry = rx" using x Y by simp_all
      have "''value_'' @ X \<notin> (\<lambda>k. ''value_'' @ k) ` fst ` set xs"
        using nin by (simp add: image_iff)
      from IH4 [OF i this]
      have "(rows f' ! i) (''value_'' @ X) = (rows f1 ! i) (''value_'' @ X)" .
      with position_step_cells(1,4) [OF step len i v rub] show ?thesis
        by (simp add: YX)
    next
      case False
      then have "(Y, ry) \<in> set xs" using p Y by simp
      from IH5 [OF i this] obtain w where w: "(rows f1 ! i) ''value_RUB'' = Num w" "ry \<noteq> 0"
        "(rows f' ! i) (''value_'' @ Y) = (if sel ! i then Num w else Num (w / ry))"
        by auto
      have "w = v" using w(1) cell1 [OF i] v by simp
      with w show ?thesis by simp
    qed
    with v show "case p of (Y, ry) \<Rightarrow> \<exists>v. (rows f ! i) ''value_RUB'' = Num v \<and> ry \<noteq> 0
           \<and> (rows f' ! i) (''value_'' @ Y) = (if sel ! i then Num v else Num (v / ry))"
      by (simp add: Y)
  qed
  from A B C D E show ?case by blast
qed

lemma fill_cell_not_NA [simp]: "fill_cell (Num 1) x \<noteq> NA"
  by (cases x) (simp_all add: fill_cell_def)

lemma fill_cell_eq_Str [simp]: "(fill_cell (Num 1) x = Str s) = (x = Str s)"
  by (cases x) (simp_all add: fill_cell_def)

lemma tagged_not_value:
  "c \<in> set tagged_columns \<Longrightarrow> c \<noteq> ''value_'' @ k \<and> c \<noteq> ''exchange_rate'' \<and> c \<noteq> ''value_RUB''"
  by (auto simp: tagged_columns_def portfolio_columns_def)

lemma tagged_members:
  "''value'' \<in> set tagged_columns" "''currency'' \<in> set tagged_columns"
  "''account'' \<in> set tagged_columns"
  by (simp_all add: tagged_columns_def portfolio_columns_def)

lemma convert_portfolio_Inr:
  assumes cols: "columns pf = tagged_columns"
    and d: "distinct (map fst xr)"
    and a: "a \<noteq> []"
    and H: "\<forall>(X, rx) \<in> set xr. X = ''RUB'' \<longrightarrow> rx = 1"
    and ok: "convert_portfolio pf (tag_frame (Some a) (rates_frame xr)) = Inr P"
  shows "length (rows P) = length (rows pf)"
    and "set (columns P) = set tagged_columns \<union> {''value_RUB''} \<union> (\<lambda>k. ''value_'' @ k) ` fst ` set xr"
    and "\<forall>i<length (rows pf). \<forall>c. c \<in> set tagged_columns \<longrightarrow>
           (rows P ! i) c = fill_cell (Num 1) ((rows pf ! i) c)"
    and "\<forall>i<length (rows pf). \<exists>v r.
           fill_cell (Num 1) ((rows pf ! i) ''value'') = Num v
           \<and> fill_cell (Num 1) (rate_cell xr ((rows pf ! i) ''currency'')) = Num r
           \<and> (rows P ! i) ''value_RUB'' = Num (v * r)
           \<and> (\<forall>(X, rx) \<in> set xr. rx \<noteq> 0
                 \<and> (rows P ! i) (''value_'' @ X) =
                     (if (rows pf ! i) ''currency'' = Str ''RUB'' then Num (v * r) else Num (v * r / rx)))"
proof -
  let ?E = "tag_frame (Some a) (rates_frame xr)"
  let ?m = "\<lambda>l c. if c = ''exchange_rate'' then fill_cell (Num 1) (rate_cell xr (l ''currency''))
                   else if c \<in> set tagged_columns then fill_cell (Num 1) (l c) else NA"
  let ?F = "\<lparr>columns = tagged_columns @ [''exchange_rate''], rows = map ?m (rows pf)\<rparr>"
  have fill: "fillna (Num 1) \<lparr>columns = tagged_columns @ [''exchange_rate''],
              rows = map (\<lambda>l c. if c = ''exchange_rate'' then rate_cell xr (l ''currency'')
                               else if c \<in> set tagged_columns then l c else NA) (rows pf)\<rparr> = ?F"
    by (auto simp: fillna_def fun_eq_iff)
  have gv: "getattr ?F ''value'' = Inr (map (\<lambda>l. ?m l ''value'') (rows pf))"
    by (simp add: getattr_def tagged_members o_def)
  have ge: "getattr ?F ''exchange_rate'' = Inr (map (\<lambda>l. ?m l ''exchange_rate'') (rows pf))"
    by (simp add: getattr_def o_def)
  from ok obtain vr f' where
    tr: "traverse (\<lambda>l. cell_mul (?m l ''value'') (?m l ''exchange_rate'')) (rows pf) = Inr vr" and
    loop: "foldM (position_step (map (\<lambda>c. c = Str ''RUB'')
                    (map (\<lambda>r. r ''currency'') (rows (setitem ?F ''value_RUB'' vr)))))
             (setitem ?F ''value_RUB'' vr) (frame_values ?E) = Inr f'" and
    dr: "drop_column f' ''exchange_rate'' = Inr P"
    unfolding convert_portfolio_def drop_account_tagged_rates [OF a] and_then_simps
      merge_rates [OF cols d] Let_def fill gv ge series_op_map
    by (auto simp: and_then_Inr_iff getattr_def setitem_def add_column_def tagged_members
        split: if_splits)
  let ?f0 = "setitem ?F ''value_RUB'' vr"
  let ?sel = "map (\<lambda>c. c = Str ''RUB'') (map (\<lambda>r. r ''currency'') (rows ?f0))"
  have lvr: "length vr = length (rows pf)"
    using traverse_Inr_length [OF tr] .
  have len0: "length (rows ?f0) = length (rows pf)"
    by (simp add: setitem_def lvr)
  have row0: "rows ?f0 ! i = (?m (rows pf ! i))(''value_RUB'' := vr ! i)" if "i < length (rows pf)" for i
    using that lvr by (simp add: setitem_def)
  have prod: "\<exists>v r. fill_cell (Num 1) ((rows pf ! i) ''value'') = Num v
           \<and> fill_cell (Num 1) (rate_cell xr ((rows pf ! i) ''currency'')) = Num r
           \<and> vr ! i = Num (v * r)" if "i < length (rows pf)" for i
  proof -
    from traverse_Inr_nth [OF tr that]
    have "cell_mul (fill_cell (Num 1) ((rows pf ! i) ''value''))
            (fill_cell (Num 1) (rate_cell xr ((rows pf ! i) ''currency''))) = Inr (vr ! i)"
      by (simp add: tagged_members)
    from cell_mul_filled [OF this] show ?thesis by simp
  qed
  have sel: "?sel ! i = ((rows pf ! i) ''currency'' = Str ''RUB'')" if "i < length (rows pf)" for i
    using that len0 by (simp add: row0 [OF that] tagged_members)
  have lsel: "length ?sel = length (rows ?f0)"
    by simp
  have inv: "\<forall>i<length (rows ?f0). \<exists>v. (rows ?f0 ! i) ''value_RUB'' = Num v"
  proof (intro allI impI)
    fix i assume "i < length (rows ?f0)"
    then have i: "i < length (rows pf)" using len0 by simp
    from prod [OF i] show "\<exists>v. (rows ?f0 ! i) ''value_RUB'' = Num v"
      by (auto simp: row0 [OF i])
  qed
  have loop': "foldM (position_step ?sel) ?f0 (map (\<lambda>(k, v). [Str k, Num v, Str a]) xr) = Inr f'"
    using loop by (simp only: frame_values_tagged_rates [OF a])
  note L = position_loop [OF loop' lsel d H inv, unfolded len0]
  note L1 = L [THEN conjunct1]
  note L2 = L [THEN conjunct2, THEN conjunct1]
  note L3 = L [THEN conjunct2, THEN conjunct2, THEN conjunct1, rule_format]
  note L4 = L [THEN conjunct2, THEN conjunct2, THEN conjunct2, THEN conjunct1, rule_format]
  note L5 = L [THEN conjunct2, THEN conjunct2, THEN conjunct2, THEN conjunct2, rule_format]
  from dr have er: "''exchange_rate'' \<in> set (columns f')"
    and P: "P = \<lparr>columns = filter (\<lambda>d. d \<noteq> ''exchange_rate'') (columns f'),
                 rows = map (\<lambda>r. r(''exchange_rate'' := NA)) (rows f')\<rparr>"
    by (auto simp: drop_column_def split: if_splits)
  show "length (rows P) = length (rows pf)"
    by (simp add: P L1)
  have cols0: "set (columns ?f0) = insert ''value_RUB'' (insert ''exchange_rate'' (set tagged_columns))"
    by (simp add: setitem_def)
  show "set (columns P) = set tagged_columns \<union> {''value_RUB''} \<union> (\<lambda>k. ''value_'' @ k) ` fst ` set xr"
    unfolding P using tagged_not_value by (auto simp: L2 cols0)
  have Pi: "rows P ! i = (rows f' ! i)(''exchange_rate'' := NA)" if "i < length (rows pf)" for i
    using that L1 by (simp add: P)
  show "\<forall>i<length (rows pf). \<forall>c. c \<in> set tagged_columns \<longrightarrow>
           (rows P ! i) c = fill_cell (Num 1) ((rows pf ! i) c)"
  proof (intro allI impI)
    fix i c assume i: "i < length (rows pf)" and c: "c \<in> set tagged_columns"
    have nin: "c \<notin> (\<lambda>k. ''value_'' @ k) ` fst ` set xr"
      using tagged_not_value [OF c] by (auto simp: image_iff)
    have "(rows P ! i) c = (rows f' ! i) c"
      using tagged_not_value [OF c] by (simp add: Pi [OF i])
    also have "\<dots> = (rows ?f0 ! i) c"
      by (rule L4 [OF i nin])
    also have "\<dots> = fill_cell (Num 1) ((rows pf ! i) c)"
      using tagged_not_value [OF c] c by (simp add: row0 [OF i])
    finally show "(rows P ! i) c = fill_cell (Num 1) ((rows pf ! i) c)" .
  qed
  show "\<forall>i<length (rows pf). \<exists>v r.
           fill_cell (Num 1) ((rows pf ! i) ''value'') = Num v
           \<and> fill_cell (Num 1) (rate_cell xr ((rows pf ! i) ''currency'')) = Num r
           \<and> (rows P ! i) ''value_RUB'' = Num (v * r)
           \<and> (\<forall>(X, rx) \<in> set xr. rx \<noteq> 0
                 \<and> (rows P ! i) (''value_'' @ X) =
                     (if (rows pf ! i) ''currency'' = Str ''RUB'' then Num (v * r) else Num (v * r / rx)))"
  proof (intro allI impI)
    fix i assume i: "i < length (rows pf)"
    from prod [OF i] obtain v r where
      v: "fill_cell (Num 1) ((rows pf ! i) ''value'') = Num v" and
      r: "fill_cell (Num 1) (rate_cell xr ((rows pf ! i) ''currency'')) = Num r" and
      vr: "vr ! i = Num (v * r)"
      by blast
    have f0: "(rows ?f0 ! i) ''value_RUB'' = Num (v * r)"
      by (simp add: row0 [OF i] vr)
    have vrub: "(rows P ! i) ''value_RUB'' = Num (v * r)"
      using L3 [OF i] f0 by (simp add: Pi [OF i])
    have each: "rx \<noteq> 0 \<and> (rows P ! i) (''value_'' @ X) =
                     (if (rows pf ! i) ''currency'' = Str ''RUB'' then Num (v * r) else Num (v * r / rx))"
      if "(X, rx) \<in> set xr" for X rx
    proof -
      from L5 [OF i that] obtain w where w: "(rows ?f0 ! i) ''value_RUB'' = Num w" "rx \<noteq> 0"
        "(rows f' ! i) (''value_'' @ X) = (if ?sel ! i then Num w else Num (w / rx))"
        by auto
      have "w = v * r" using w(1) f0 by simp
      with w sel [OF i] show ?thesis by (simp add: Pi [OF i])
    qed
    show "\<exists>v r.
           fill_cell (Num 1) ((rows pf ! i) ''value'') = Num v
           \<and> fill_cell (Num 1) (rate_cell xr ((rows pf ! i) ''currency'')) = Num r
           \<and> (rows P ! i) ''value_RUB'' = Num (v * r)
           \<and> (\<forall>(X, rx) \<in> set xr. rx \<noteq> 0
                 \<and> (rows P ! i) (''value_'' @ X) =
                     (if (rows pf ! i) ''currency'' = Str ''RUB'' then Num (v * r) else Num (v * r / rx)))"
      using v r vrub each by blast
  qed
qed

lemma convert_portfolio_untagged:
  "convert_portfolio pf (rates_frame xr) = Inl (KeyError ''account'')"
  by (simp add: convert_portfolio_def drop_column_def rates_frame_def DataFrame_def)

lemma prepare_data_Inr:
  assumes "prepare_data ER ps os xr acct = Inr (P, Q, E)"
  shows "\<exists>a prows. acct = Some a \<and> a \<noteq> [] \<and> traverse position_row ps = Inr prows
     \<and> convert_portfolio (tag_frame (Some a) (DataFrame prows portfolio_columns))
          (tag_frame (Some a) (rates_frame xr)) = Inr P
     \<and> convert_operations ER (tag_frame (Some a) (DataFrame (map operation_row os) operations_columns))
          (tag_frame (Some a) (rates_frame xr)) = Inr Q
     \<and> E = tag_frame (Some a) (rates_frame xr)"
proof -
  from assms obtain P0 Q0 E0 where
    t: "to_DataFrame (ps, os, xr) acct = Inr (P0, Q0, E0)" and
    c: "currency_comparability ER (P0, Q0, E0) = Inr (P, Q, E)"
    by (auto simp: prepare_data_def and_then_Inr_iff)
  from to_DataFrame_Inr [OF t] obtain prows where tr: "traverse position_row ps = Inr prows"
    and P0: "P0 = tag_frame acct (DataFrame prows portfolio_columns)"
    and Q0: "Q0 = tag_frame acct (DataFrame (map operation_row os) operations_columns)"
    and E0: "E0 = tag_frame acct (rates_frame xr)"
    by blast
  from c have cp: "convert_portfolio P0 E0 = Inr P" and co: "convert_operations ER Q0 E0 = Inr Q"
    and E: "E = E0"
    by (auto simp: currency_comparability_def and_then_Inr_iff)
  have "\<exists>a. acct = Some a \<and> a \<noteq> []"
  proof (rule ccontr)
    assume "\<not> (\<exists>a. acct = Some a \<and> a \<noteq> [])"
    then have "E0 = rates_frame xr"
      by (cases acct) (simp_all add: E0 tag_frame_def)
    with cp show False by (simp add: convert_portfolio_untagged)
  qed
  then obtain a where "acct = Some a" "a \<noteq> []" by blast
  with tr cp co E P0 Q0 E0 show ?thesis by simp
qed

lemma columns_tagged_positions:
  "a \<noteq> [] \<Longrightarrow> columns (tag_frame (Some a) (DataFrame prows portfolio_columns)) = tagged_columns"
  by (simp add: tag_frame_def setitem_scalar_def add_column_def DataFrame_def tagged_columns_def
      portfolio_columns_def)

lemma tagged_position_cells:
  assumes a: "a \<noteq> []" and i: "i < length prows"
    and v: "prows ! i = [Str g, t, n, Num c, Num y, Num w, Str cur, Num b, Str ty]"
  shows "(rows (tag_frame (Some a) (DataFrame prows portfolio_columns)) ! i) ''value'' = Num w"
    and "(rows (tag_frame (Some a) (DataFrame prows portfolio_columns)) ! i) ''currency'' = Str cur"
    and "(rows (tag_frame (Some a) (DataFrame prows portfolio_columns)) ! i) ''account'' = Str a"
    and "(rows (tag_frame (Some a) (DataFrame prows portfolio_columns)) ! i) ''name'' = n"
    and "(rows (tag_frame (Some a) (DataFrame prows portfolio_columns)) ! i) ''ticker'' = t"
  using a i by (simp_all add: rows_tag_frame DataFrame_def row_of_def portfolio_columns_def v)

lemma rate_cell_Str:
  "fill_cell (Num 1) (rate_cell xr (Str k)) = Num (case map_of xr k of Some r \<Rightarrow> r | None \<Rightarrow> 1)"
  by (simp add: rate_cell_def fill_cell_def split: option.splits)

lemma prepare_data_positions:
  assumes ok: "prepare_data ER ps os xr acct = Inr (P, Q, E)"
    and d: "distinct (map fst xr)"
    and H: "\<forall>(X, rx) \<in> set xr. X = ''RUB'' \<longrightarrow> rx = 1"
    and i: "i < length ps"
  shows "length (rows P) = length ps"
    and "\<exists>y a. expected_yield (ps ! i) = Some y \<and> average_position_price (ps ! i) = Some a
           \<and> (rows P ! i) ''value'' = Num (m_value a * balance (ps ! i) + m_value y)
           \<and> (rows P ! i) ''currency'' = Str (strip_qualifier (m_currency y))
           \<and> (rows P ! i) ''value_RUB'' =
               Num ((m_value a * balance (ps ! i) + m_value y)
                    * (case map_of xr (strip_qualifier (m_currency y)) of Some r \<Rightarrow> r | None \<Rightarrow> 1))
           \<and> (\<forall>(X, rx) \<in> set xr. rx \<noteq> 0
                 \<and> (rows P ! i) (''value_'' @ X) =
                     (if strip_qualifier (m_currency y) = ''RUB''
                      then Num ((m_value a * balance (ps ! i) + m_value y)
                             * (case map_of xr (strip_qualifier (m_currency y)) of Some r \<Rightarrow> r | None \<Rightarrow> 1))
                      else Num ((m_value a * balance (ps ! i) + m_value y)
                             * (case map_of xr (strip_qualifier (m_currency y)) of Some r \<Rightarrow> r | None \<Rightarrow> 1)
                             / rx)))"
proof -
  from prepare_data_Inr [OF ok] obtain a prows where a: "a \<noteq> []"
    and tr: "traverse position_row ps = Inr prows"
    and cp: "convert_portfolio (tag_frame (Some a) (DataFrame prows portfolio_columns))
          (tag_frame (Some a) (rates_frame xr)) = Inr P"
    by blast
  let ?pf = "tag_frame (Some a) (DataFrame prows portfolio_columns)"
  have len: "length prows = length ps"
    using tr by (rule traverse_Inr_length)
  have lpf: "length (rows ?pf) = length ps"
    by (simp add: DataFrame_def len)
  note cols = columns_tagged_positions [OF a, of prows]
  note R = convert_portfolio_Inr [OF cols d a H cp, unfolded lpf]
  show "length (rows P) = length ps" by (rule R(1))
  from position_row_Inr [OF traverse_Inr_nth [OF tr i]]
  obtain y :: MoneyAmount and pr :: MoneyAmount where y: "expected_yield (ps ! i) = Some y"
    and pr: "average_position_price (ps ! i) = Some pr"
    and v: "prows ! i = [Str (figi (ps ! i)), opt_str (ticker (ps ! i)), opt_str (name (ps ! i)),
                Num (m_value pr), Num (m_value y),
                Num (m_value pr * balance (ps ! i) + m_value y),
                Str (strip_qualifier (m_currency y)), Num (balance (ps ! i)),
                Str (strip_qualifier (instrument_type (ps ! i)))]"
    by blast
  have i': "i < length prows" using i len by simp
  note cells = tagged_position_cells [OF a i' v]
  from R(4) [rule_format, OF i] obtain w r where
    w: "fill_cell (Num 1) ((rows ?pf ! i) ''value'') = Num w" and
    r: "fill_cell (Num 1) (rate_cell xr ((rows ?pf ! i) ''currency'')) = Num r" and
    vr: "(rows P ! i) ''value_RUB'' = Num (w * r)" and
    each: "\<forall>(X, rx) \<in> set xr. rx \<noteq> 0
                 \<and> (rows P ! i) (''value_'' @ X) =
                     (if (rows ?pf ! i) ''currency'' = Str ''RUB'' then Num (w * r) else Num (w * r / rx))"
    by blast
  have w': "w = m_value pr * balance (ps ! i) + m_value y"
    using w by (simp add: cells(1) fill_cell_def)
  have r': "r = (case map_of xr (strip_qualifier (m_currency y)) of Some r \<Rightarrow> r | None \<Rightarrow> 1)"
    using r by (simp add: cells(2) rate_cell_Str)
  have pv: "(rows P ! i) ''value'' = Num (m_value pr * balance (ps ! i) + m_value y)"
    using R(3) [rule_format, OF i tagged_members(1)] by (simp add: cells(1) fill_cell_def)
  have pc: "(rows P ! i) ''currency'' = Str (strip_qualifier (m_currency y))"
    using R(3) [rule_format, OF i tagged_members(2)] by (simp add: cells(2) fill_cell_def)
  show "\<exists>y a. expected_yield (ps ! i) = Some y \<and> average_position_price (ps ! i) = Some a
           \<and> (rows P ! i) ''value'' = Num (m_value a * balance (ps ! i) + m_value y)
           \<and> (rows P ! i) ''currency'' = Str (strip_qualifier (m_currency y))
           \<and> (rows P ! i) ''value_RUB'' =
               Num ((m_value a * balance (ps ! i) + m_value y)
                    * (case map_of xr (strip_qualifier (m_currency y)) of Some r \<Rightarrow> r | None \<Rightarrow> 1))
           \<and> (\<forall>(X, rx) \<in> set xr. rx \<noteq> 0
                 \<and> (rows P ! i) (''value_'' @ X) =
                     (if strip_qualifier (m_currency y) = ''RUB''
                      then Num ((m_value a * balance (ps ! i) + m_value y)
                             * (case map_of xr (strip_qualifier (m_currency y)) of Some r \<Rightarrow> r | None \<Rightarrow> 1))
                      else Num ((m_value a * balance (ps ! i) + m_value y)
                             * (case map_of xr (strip_qualifier (m_currency y)) of Some r \<Rightarrow> r | None \<Rightarrow> 1)
                             / rx)))"
    apply (rule exI [of _ y], rule exI [of _ pr])
    using y pr pv pc vr each unfolding cells(2) w' r'
    apply simp
    done
qed

lemma map_of_rub:
  assumes "\<forall>(X, rx) \<in> set xr. X = ''RUB'' \<longrightarrow> rx = 1"
  shows "(case map_of xr ''RUB'' of Some r \<Rightarrow> r | None \<Rightarrow> 1) = (1 :: rat)"
proof (cases "map_of xr ''RUB''")
  case None
  then show ?thesis by simp
next
  case (Some r)
  then have "(''RUB'', r) \<in> set xr" by (rule map_of_SomeD)
  with assms have "r = 1" by auto
  with Some show ?thesis by simp
qed

text \<open>
  C3. The positions are left-joined to the rate snapshot on the currency code: every
  position row is kept, in order, and \<open>value_RUB\<close> is the value times the rate of the
  row's currency in the snapshot, or times 1 when the snapshot has no entry for it. With
  no entry for the base currency (or an entry of rate 1, the base currency's rate to
  itself), \<open>value_RUB\<close> of a rouble position is its value.
\<close>

theorem positions_left_join_default_rate:
  assumes "prepare_data ER ps os xr acct = Inr (P, Q, E)"
    and "distinct (map fst xr)"
    and "\<forall>(X, rx) \<in> set xr. X = ''RUB'' \<longrightarrow> rx = 1"
    and "i < length ps"
  shows "length (rows P) = length ps
    \<and> (\<exists>y a. expected_yield (ps ! i) = Some y \<and> average_position_price (ps ! i) = Some a
         \<and> (rows P ! i) ''value'' = Num (m_value a * balance (ps ! i) + m_value y)
         \<and> (rows P ! i) ''value_RUB'' =
             Num ((m_value a * balance (ps ! i) + m_value y)
                  * (case map_of xr (strip_qualifier (m_currency y)) of Some r \<Rightarrow> r | None \<Rightarrow> 1))
         \<and> (strip_qualifier (m_currency y) = ''RUB'' \<longrightarrow>
               (rows P ! i) ''value_RUB'' = (rows P ! i) ''value''))"
proof -
  from prepare_data_positions(2) [OF assms]
  obtain y :: MoneyAmount and a :: MoneyAmount where
    y: "expected_yield (ps ! i) = Some y" and a: "average_position_price (ps ! i) = Some a"
    and v: "(rows P ! i) ''value'' = Num (m_value a * balance (ps ! i) + m_value y)"
    and vr: "(rows P ! i) ''value_RUB'' =
               Num ((m_value a * balance (ps ! i) + m_value y)
                    * (case map_of xr (strip_qualifier (m_currency y)) of Some r \<Rightarrow> r | None \<Rightarrow> 1))"
    by blast
  have "strip_qualifier (m_currency y) = ''RUB'' \<longrightarrow> (rows P ! i) ''value_RUB'' = (rows P ! i) ''value''"
    using map_of_rub [OF assms(3)] by (simp add: v vr)
  with prepare_data_positions(1) [OF assms] y a v vr show ?thesis by blast
qed

theorem positions_left_join_default_rate_witness:
  "\<exists>P Q E. prepare_data ex_lookup [ex_position_rub, ex_position_usd] [ex_operation_usd]
       [(''USD'', 90)] (Some ''Main'') = Inr (P, Q, E)
     \<and> length (rows P) = 2
     \<and> (rows P ! 0) ''value'' = Num 100 \<and> (rows P ! 0) ''value_RUB'' = Num 100
     \<and> (rows P ! 1) ''value'' = Num 32 \<and> (rows P ! 1) ''value_RUB'' = Num 2880"
proof -
  let ?ps = "[ex_position_rub, ex_position_usd]"
  let ?xr = "[(''USD'', 90 :: rat)]"
  have "is_ok (prepare_data ex_lookup ?ps [ex_operation_usd] ?xr (Some ''Main''))"
    by code_simp
  then obtain P Q E where
    ok: "prepare_data ex_lookup ?ps [ex_operation_usd] ?xr (Some ''Main'') = Inr (P, Q, E)"
    using is_ok_obtain by (metis prod_cases3)
  have d: "distinct (map fst ?xr)" by simp
  have h: "\<forall>(X, rx) \<in> set ?xr. X = ''RUB'' \<longrightarrow> rx = 1" by simp
  have s: "strip_qualifier ''RUB'' = ''RUB''" "strip_qualifier ''USD'' = ''USD''"
    by (simp_all add: strip_qualifier_no_separator)
  from positions_left_join_default_rate [OF ok d h, of 0]
  have r0: "length (rows P) = 2 \<and> (rows P ! 0) ''value'' = Num 100 \<and> (rows P ! 0) ''value_RUB'' = Num 100"
    by (auto simp: ex_position_rub_def s)
  from positions_left_join_default_rate [OF ok d h, of 1]
  have r1: "(rows P ! 1) ''value'' = Num 32 \<and> (rows P ! 1) ''value_RUB'' = Num 2880"
    by (auto simp: ex_position_usd_def s)
  from ok r0 r1 show ?thesis by blast
qed

text \<open>
  C1. For a currency \<open>X\<close> with an entry \<open>rx\<close> in the rate snapshot, a position whose
  currency is not the rouble has \<open>value_X = value_RUB / rx\<close> (and \<open>rx\<close> is not zero
  when the conversion returns), and a rouble position has \<open>value_X = value_RUB\<close>,
  undivided. The snapshot is a dictionary (distinct keys) in which the base currency has
  no entry, or the entry 1.
\<close>

theorem position_value_in_snapshot_currency:
  assumes "prepare_data ER ps os xr acct = Inr (P, Q, E)"
    and "distinct (map fst xr)"
    and "\<forall>(X, rx) \<in> set xr. X = ''RUB'' \<longrightarrow> rx = 1"
    and "i < length ps"
    and "(X, rx) \<in> set xr"
  shows "\<exists>y v. expected_yield (ps ! i) = Some y
    \<and> (rows P ! i) ''currency'' = Str (strip_qualifier (m_currency y))
    \<and> (rows P ! i) ''value_RUB'' = Num v \<and> rx \<noteq> 0
    \<and> (strip_qualifier (m_currency y) \<noteq> ''RUB'' \<longrightarrow> (rows P ! i) (''value_'' @ X) = Num (v / rx))
    \<and> (strip_qualifier (m_currency y) = ''RUB'' \<longrightarrow> (rows P ! i) (''value_'' @ X) = Num v)"
proof -
  from prepare_data_positions(2) [OF assms(1-4)]
  obtain y :: MoneyAmount and a :: MoneyAmount and v where
    y: "expected_yield (ps ! i) = Some y"
    and c: "(rows P ! i) ''currency'' = Str (strip_qualifier (m_currency y))"
    and vr: "(rows P ! i) ''value_RUB'' = Num v"
    and each: "\<forall>(X, rx) \<in> set xr. rx \<noteq> 0
                 \<and> (rows P ! i) (''value_'' @ X) =
                     (if strip_qualifier (m_currency y) = ''RUB'' then Num v else Num (v / rx))"
    by blast
  from each assms(5) have "rx \<noteq> 0" and
    "(rows P ! i) (''value_'' @ X) = (if strip_qualifier (m_currency y) = ''RUB'' then Num v else Num (v / rx))"
    by auto
  with y c vr show ?thesis by auto
qed

theorem position_value_in_snapshot_currency_witness:
  "\<exists>P Q E. prepare_data ex_lookup [ex_position_rub, ex_position_usd] [ex_operation_usd]
       [(''USD'', 90)] (Some ''Main'') = Inr (P, Q, E)
     \<and> (rows P ! 0) ''value_RUB'' = Num 100 \<and> (rows P ! 0) ''value_USD'' = Num 100
     \<and> (rows P ! 1) ''value_RUB'' = Num 2880 \<and> (rows P ! 1) ''value_USD'' = Num 32"
proof -
  let ?ps = "[ex_position_rub, ex_position_usd]"
  let ?xr = "[(''USD'', 90 :: rat)]"
  have e: "case prepare_data ex_lookup ?ps [ex_operation_usd] ?xr (Some ''Main'') of
             Inl e \<Rightarrow> False
           | Inr (P, Q, E) \<Rightarrow> (rows P ! 0) ''value_RUB'' = Num 100 \<and> (rows P ! 1) ''value_RUB'' = Num 2880"
    by code_simp
  then obtain P Q E where
    ok: "prepare_data ex_lookup ?ps [ex_operation_usd] ?xr (Some ''Main'') = Inr (P, Q, E)"
    by (auto split: sum.splits)
  from e have vr: "(rows P ! 0) ''value_RUB'' = Num 100" "(rows P ! 1) ''value_RUB'' = Num 2880"
    by (simp_all add: ok)
  have d: "distinct (map fst ?xr)" by simp
  have h: "\<forall>(X, rx) \<in> set ?xr. X = ''RUB'' \<longrightarrow> rx = 1" by simp
  have m: "(''USD'', 90) \<in> set ?xr" by simp
  have s: "strip_qualifier ''RUB'' = ''RUB''" "strip_qualifier ''USD'' = ''USD''"
    by (simp_all add: strip_qualifier_no_separator)
  from position_value_in_snapshot_currency [OF ok d h _ m, of 0]
  have r0: "(rows P ! 0) ''value_USD'' = Num 100"
    using vr by (auto simp: ex_position_rub_def s)
  from position_value_in_snapshot_currency [OF ok d h _ m, of 1]
  have r1: "(rows P ! 1) ''value_USD'' = Num 32"
    using vr by (auto simp: ex_position_usd_def s)
  from ok vr r0 r1 show ?thesis by blast
qed

lemma position_loop_frame:
  assumes "foldM (position_step sel) f (map (\<lambda>(k, v). [Str k, Num v, Str a]) xs) = Inr f'"
    and "length sel = length (rows f)"
  shows "length (rows f') = length (rows f)
    \<and> set (columns f') = set (columns f) \<union> (\<lambda>k. ''value_'' @ k) ` fst ` set xs
    \<and> (\<forall>i<length (rows f). \<forall>c. c \<notin> (\<lambda>k. ''value_'' @ k) ` fst ` set xs \<longrightarrow>
           (rows f' ! i) c = (rows f ! i) c)"
  using assms
proof (induction xs arbitrary: f)
  case Nil
  then show ?case by simp
next
  case (Cons x xs)
  obtain X rx where x: "x = (X, rx)" by (cases x)
  from Cons.prems(1) obtain f1 where
    step: "position_step sel f [Str X, Num rx, Str a] = Inr f1" and
    rest: "foldM (position_step sel) f1 (map (\<lambda>(k, v). [Str k, Num v, Str a]) xs) = Inr f'"
    by (simp add: x split: sum.splits)
  note len = Cons.prems(2)
  have len1: "length (rows f1) = length (rows f)"
    by (rule position_step_Inr(3) [OF step len])
  have len': "length sel = length (rows f1)"
    using len len1 by simp
  note IH = Cons.IH [OF rest len', unfolded len1]
  have cols1: "columns f1 = add_column (''value_'' @ X) (columns f)"
    by (rule position_step_Inr(2) [OF step len])
  have B: "set (columns f') = set (columns f) \<union> (\<lambda>k. ''value_'' @ k) ` fst ` set (x # xs)"
    unfolding IH [THEN conjunct2, THEN conjunct1] cols1 by (simp add: x)
  have keep: "(rows f1 ! i) c = (rows f ! i) c" if "i < length (rows f)" "c \<noteq> ''value_'' @ X" for i c
  proof -
    from position_step_Inr(4) [OF step len, rule_format, OF that(1)] obtain q where
      "rows f1 ! i = (let r1 = (rows f ! i)(''value_'' @ X := q)
                       in if sel ! i then r1(''value_'' @ X := r1 ''value_RUB'') else r1)"
      by blast
    then show ?thesis using that(2) by (simp add: Let_def)
  qed
  have "\<forall>i<length (rows f). \<forall>c. c \<notin> (\<lambda>k. ''value_'' @ k) ` fst ` set (x # xs) \<longrightarrow>
           (rows f' ! i) c = (rows f ! i) c"
  proof (intro allI impI)
    fix i c assume i: "i < length (rows f)" and c: "c \<notin> (\<lambda>k. ''value_'' @ k) ` fst ` set (x # xs)"
    have cX: "c \<noteq> ''value_'' @ X" and cxs: "c \<notin> (\<lambda>k. ''value_'' @ k) ` fst ` set xs"
      using c by (simp_all add: x)
    have "(rows f' ! i) c = (rows f1 ! i) c"
      by (rule IH [THEN conjunct2, THEN conjunct2, rule_format, OF i cxs])
    with keep [OF i cX] show "(rows f' ! i) c = (rows f ! i) c" by simp
  qed
  with IH B show ?case by simp
qed

lemma columns_drop_rate:
  "v \<noteq> e \<Longrightarrow> e \<notin> A \<Longrightarrow> e \<notin> B \<Longrightarrow>
   (insert v (insert e A) \<union> B) - {e} = A \<union> {v} \<union> B"
  by blast

lemma convert_portfolio_filled:
  assumes cols: "columns pf = tagged_columns"
    and d: "distinct (map fst xr)"
    and a: "a \<noteq> []"
    and ok: "convert_portfolio pf (tag_frame (Some a) (rates_frame xr)) = Inr P"
  shows "length (rows P) = length (rows pf)"
    and "\<forall>i<length (rows pf). \<forall>c. c \<in> set tagged_columns \<longrightarrow>
           (rows P ! i) c = fill_cell (Num 1) ((rows pf ! i) c)"
    and "set (columns P) = set tagged_columns \<union> {''value_RUB''} \<union> (\<lambda>k. ''value_'' @ k) ` fst ` set xr"
proof -
  let ?E = "tag_frame (Some a) (rates_frame xr)"
  let ?m = "\<lambda>l c. if c = ''exchange_rate'' then fill_cell (Num 1) (rate_cell xr (l ''currency''))
                   else if c \<in> set tagged_columns then fill_cell (Num 1) (l c) else NA"
  let ?F = "\<lparr>columns = tagged_columns @ [''exchange_rate''], rows = map ?m (rows pf)\<rparr>"
  have fill: "fillna (Num 1) \<lparr>columns = tagged_columns @ [''exchange_rate''],
              rows = map (\<lambda>l c. if c = ''exchange_rate'' then rate_cell xr (l ''currency'')
                               else if c \<in> set tagged_columns then l c else NA) (rows pf)\<rparr> = ?F"
    by (auto simp: fillna_def fun_eq_iff)
  have gv: "getattr ?F ''value'' = Inr (map (\<lambda>l. ?m l ''value'') (rows pf))"
    by (simp add: getattr_def tagged_members o_def)
  have ge: "getattr ?F ''exchange_rate'' = Inr (map (\<lambda>l. ?m l ''exchange_rate'') (rows pf))"
    by (simp add: getattr_def o_def)
  from ok obtain vr f' where
    tr: "traverse (\<lambda>l. cell_mul (?m l ''value'') (?m l ''exchange_rate'')) (rows pf) = Inr vr" and
    loop: "foldM (position_step (map (\<lambda>c. c = Str ''RUB'')
                    (map (\<lambda>r. r ''currency'') (rows (setitem ?F ''value_RUB'' vr)))))
             (setitem ?F ''value_RUB'' vr) (frame_values ?E) = Inr f'" and
    dr: "drop_column f' ''exchange_rate'' = Inr P"
    unfolding convert_portfolio_def drop_account_tagged_rates [OF a] and_then_simps
      merge_rates [OF cols d] Let_def fill gv ge series_op_map
    by (auto simp: and_then_Inr_iff getattr_def setitem_def add_column_def tagged_members
        split: if_splits)
  let ?f0 = "setitem ?F ''value_RUB'' vr"
  let ?sel = "map (\<lambda>c. c = Str ''RUB'') (map (\<lambda>r. r ''currency'') (rows ?f0))"
  have lvr: "length vr = length (rows pf)"
    using traverse_Inr_length [OF tr] .
  have len0: "length (rows ?f0) = length (rows pf)"
    by (simp add: setitem_def lvr)
  have row0: "rows ?f0 ! i = (?m (rows pf ! i))(''value_RUB'' := vr ! i)" if "i < length (rows pf)" for i
    using that lvr by (simp add: setitem_def)
  have lsel: "length ?sel = length (rows ?f0)"
    by simp
  have loop': "foldM (position_step ?sel) ?f0 (map (\<lambda>(k, v). [Str k, Num v, Str a]) xr) = Inr f'"
    using loop by (simp only: frame_values_tagged_rates [OF a])
  note L = position_loop_frame [OF loop' lsel, unfolded len0]
  from dr have P: "P = \<lparr>columns = filter (\<lambda>d. d \<noteq> ''exchange_rate'') (columns f'),
                 rows = map (\<lambda>r. r(''exchange_rate'' := NA)) (rows f')\<rparr>"
    by (auto simp: drop_column_def split: if_splits)
  show "length (rows P) = length (rows pf)"
    by (simp add: P L [THEN conjunct1])
  have Pi: "rows P ! i = (rows f' ! i)(''exchange_rate'' := NA)" if "i < length (rows pf)" for i
    using that L [THEN conjunct1] by (simp add: P)
  show "\<forall>i<length (rows pf). \<forall>c. c \<in> set tagged_columns \<longrightarrow>
           (rows P ! i) c = fill_cell (Num 1) ((rows pf ! i) c)"
  proof (intro allI impI)
    fix i c assume i: "i < length (rows pf)" and c: "c \<in> set tagged_columns"
    have nin: "c \<notin> (\<lambda>k. ''value_'' @ k) ` fst ` set xr"
      using tagged_not_value [OF c] by (auto simp: image_iff)
    have "(rows P ! i) c = (rows f' ! i) c"
      using tagged_not_value [OF c] by (simp add: Pi [OF i])
    also have "\<dots> = (rows ?f0 ! i) c"
      by (rule L [THEN conjunct2, THEN conjunct2, rule_format, OF i nin])
    also have "\<dots> = fill_cell (Num 1) ((rows pf ! i) c)"
      using tagged_not_value [OF c] c by (simp add: row0 [OF i])
    finally show "(rows P ! i) c = fill_cell (Num 1) ((rows pf ! i) c)" .
  qed
  have cols0: "set (columns ?f0) = insert ''value_RUB'' (insert ''exchange_rate'' (set tagged_columns))"
    by (simp add: setitem_def)
  have s1: "set (columns P) = set (columns f') - {''exchange_rate''}"
    by (auto simp: P)
  have e1: "''exchange_rate'' \<notin> set tagged_columns"
    using tagged_not_value by blast
  have e2: "''exchange_rate'' \<notin> (\<lambda>k. ''value_'' @ k) ` fst ` set xr"
    by (auto simp: image_iff)
  show "set (columns P) = set tagged_columns \<union> {''value_RUB''} \<union> (\<lambda>k. ''value_'' @ k) ` fst ` set xr"
    unfolding s1 L [THEN conjunct2, THEN conjunct1] cols0
    by (rule columns_drop_rate [OF _ e1 e2]) simp
qed

lemma prepare_data_split:
  assumes "prepare_data ER ps os xr acct = Inr (P, Q, E)"
  shows "\<exists>a prows. acct = Some a \<and> a \<noteq> [] \<and> traverse position_row ps = Inr prows
     \<and> currency_comparability ER
          (tag_frame (Some a) (DataFrame prows portfolio_columns),
           tag_frame (Some a) (DataFrame (map operation_row os) operations_columns),
           tag_frame (Some a) (rates_frame xr)) = Inr (P, Q, E)"
proof -
  from prepare_data_Inr [OF assms] obtain a prows where
    "acct = Some a" "a \<noteq> []" "traverse position_row ps = Inr prows"
    "convert_portfolio (tag_frame (Some a) (DataFrame prows portfolio_columns))
          (tag_frame (Some a) (rates_frame xr)) = Inr P"
    "convert_operations ER (tag_frame (Some a) (DataFrame (map operation_row os) operations_columns))
          (tag_frame (Some a) (rates_frame xr)) = Inr Q"
    "E = tag_frame (Some a) (rates_frame xr)"
    by blast
  then show ?thesis by (simp add: currency_comparability_def)
qed

text \<open>
  C10. \<^verbatim>\<open>fillna(1.0)\<close> is applied to the whole merged positions table: a missing cell
  in any column of a position row, not only a missing rate, is the number 1 in the
  table that \<^verbatim>\<open>_currency_comparability\<close> returns. The positions table is any table with
  the columns \<^verbatim>\<open>_to_DataFrame\<close> writes; the rate table is that of a snapshot, a dictionary.
\<close>

theorem fillna_fills_every_column:
  assumes "currency_comparability ER (pf, qf, tag_frame (Some a) (rates_frame xr)) = Inr (P, Q, E)"
    and "columns pf = portfolio_columns @ [''account'']"
    and "a \<noteq> []"
    and "distinct (map fst xr)"
    and "i < length (rows pf)"
    and "c \<in> set (columns pf)"
    and "(rows pf ! i) c = NA"
  shows "length (rows P) = length (rows pf) \<and> (rows P ! i) c = Num 1"
proof -
  from assms(1) have cp: "convert_portfolio pf (tag_frame (Some a) (rates_frame xr)) = Inr P"
    by (auto simp: currency_comparability_def and_then_Inr_iff)
  have cols: "columns pf = tagged_columns"
    by (simp add: assms(2) tagged_columns_def)
  have c: "c \<in> set tagged_columns"
    using assms(6) by (simp add: cols)
  from convert_portfolio_filled(2) [OF cols assms(4) assms(3) cp, rule_format, OF assms(5) c]
  have "(rows P ! i) c = Num 1"
    by (simp add: assms(7) fill_cell_def)
  with convert_portfolio_filled(1) [OF cols assms(4) assms(3) cp] show ?thesis by simp
qed

theorem fillna_fills_every_column_witness:
  "\<exists>P Q E. prepare_data ex_lookup [ex_position_rub] [ex_operation_usd] [(''USD'', 90)] (Some ''Main'')
       = Inr (P, Q, E)
     \<and> name ex_position_rub = None
     \<and> length (rows P) = 1 \<and> (rows P ! 0) ''name'' = Num 1"
proof -
  let ?xr = "[(''USD'', 90 :: rat)]"
  have "is_ok (prepare_data ex_lookup [ex_position_rub] [ex_operation_usd] ?xr (Some ''Main''))"
    by code_simp
  then obtain P Q E where
    ok: "prepare_data ex_lookup [ex_position_rub] [ex_operation_usd] ?xr (Some ''Main'') = Inr (P, Q, E)"
    using is_ok_obtain by (metis prod_cases3)
  from prepare_data_split [OF ok] obtain prows where
    tr: "traverse position_row [ex_position_rub] = Inr prows" and
    cc: "currency_comparability ex_lookup
          (tag_frame (Some ''Main'') (DataFrame prows portfolio_columns),
           tag_frame (Some ''Main'') (DataFrame (map operation_row [ex_operation_usd]) operations_columns),
           tag_frame (Some ''Main'') (rates_frame ?xr)) = Inr (P, Q, E)"
    by auto
  let ?pf = "tag_frame (Some ''Main'') (DataFrame prows portfolio_columns)"
  have len: "length prows = 1"
    using traverse_Inr_length [OF tr] by simp
  have cols: "columns ?pf = portfolio_columns @ [''account'']"
    using columns_tagged_positions [of "''Main''" prows] by (simp add: tagged_columns_def)
  have i: "0 < length (rows ?pf)"
    by (simp add: DataFrame_def len)
  have c: "''name'' \<in> set (columns ?pf)"
    unfolding cols by (simp add: portfolio_columns_def)
  from position_row_Inr [OF traverse_Inr_nth [OF tr, of 0]]
  have "\<exists>g t c y w cur b ty. prows ! 0 = [Str g, t, NA, Num c, Num y, Num w, Str cur, Num b, Str ty]"
    by (auto simp: ex_position_rub_def opt_str_def)
  then obtain g t c y w cur b ty where
    v: "prows ! 0 = [Str g, t, NA, Num c, Num y, Num w, Str cur, Num b, Str ty]"
    by blast
  have na: "(rows ?pf ! 0) ''name'' = NA"
    using tagged_position_cells(4) [OF _ _ v, of "''Main''"] len by simp
  from fillna_fills_every_column [OF cc cols _ _ i c na]
  have "length (rows P) = 1 \<and> (rows P ! 0) ''name'' = Num 1"
    by (simp add: DataFrame_def len)
  with ok show ?thesis by (simp add: ex_position_rub_def)
qed

section \<open>Operation conversion\<close>

lemma series_op_Inr:
  assumes "series_op f (map g xs) (map h xs) = Inr q"
  shows "length q = length xs" and "\<forall>i<length xs. f (g (xs ! i)) (h (xs ! i)) = Inr (q ! i)"
  using assms traverse_Inr_length traverse_Inr_all_nth unfolding series_op_map by blast+

lemma multiply_columns_Inr:
  assumes "multiply_columns df t a b = Inr df'"
  shows "a \<in> set (columns df)" and "b \<in> set (columns df)"
    and "columns df' = add_column t (columns df)"
    and "length (rows df') = length (rows df)"
    and "\<forall>i<length (rows df). \<exists>q. cell_mul ((rows df ! i) a) ((rows df ! i) b) = Inr q
            \<and> rows df' ! i = (rows df ! i)(t := q)"
proof -
  from assms obtain q where a: "a \<in> set (columns df)" and b: "b \<in> set (columns df)"
    and s: "series_op cell_mul (map (\<lambda>r. r a) (rows df)) (map (\<lambda>r. r b) (rows df)) = Inr q"
    and d: "df' = setitem df t q"
    by (auto simp: multiply_columns_def and_then_Inr_iff getattr_def split: if_splits)
  show "a \<in> set (columns df)" "b \<in> set (columns df)" by (rule a, rule b)
  show "columns df' = add_column t (columns df)" by (simp add: d setitem_def)
  note l = series_op_Inr(1) [OF s]
  show "length (rows df') = length (rows df)" by (simp add: d setitem_def l)
  show "\<forall>i<length (rows df). \<exists>q. cell_mul ((rows df ! i) a) ((rows df ! i) b) = Inr q
            \<and> rows df' ! i = (rows df ! i)(t := q)"
    using series_op_Inr(2) [OF s] l by (simp add: d setitem_def)
qed

lemma divide_columns_Inr:
  assumes "divide_columns df t a b = Inr df'"
  shows "a \<in> set (columns df)" and "b \<in> set (columns df)"
    and "columns df' = add_column t (columns df)"
    and "length (rows df') = length (rows df)"
    and "\<forall>i<length (rows df). \<exists>q. cell_div ((rows df ! i) a) ((rows df ! i) b) = Inr q
            \<and> rows df' ! i = (rows df ! i)(t := q)"
proof -
  from assms obtain q where a: "a \<in> set (columns df)" and b: "b \<in> set (columns df)"
    and s: "series_op cell_div (map (\<lambda>r. r a) (rows df)) (map (\<lambda>r. r b) (rows df)) = Inr q"
    and d: "df' = setitem df t q"
    by (auto simp: divide_columns_def and_then_Inr_iff getattr_def split: if_splits)
  show "a \<in> set (columns df)" "b \<in> set (columns df)" by (rule a, rule b)
  show "columns df' = add_column t (columns df)" by (simp add: d setitem_def)
  note l = series_op_Inr(1) [OF s]
  show "length (rows df') = length (rows df)" by (simp add: d setitem_def l)
  show "\<forall>i<length (rows df). \<exists>q. cell_div ((rows df ! i) a) ((rows df ! i) b) = Inr q
            \<and> rows df' ! i = (rows df ! i)(t := q)"
    using series_op_Inr(2) [OF s] l by (simp add: d setitem_def)
qed

lemma select_date_currency:
  assumes "select_columns df [''date'', ''currency''] = Inr sub"
  shows "rows sub = map (\<lambda>r c. if c = ''date'' \<or> c = ''currency'' then r c else NA) (rows df)"
    and "''date'' \<in> set (columns df)" and "''currency'' \<in> set (columns df)"
  using assms by (auto simp: select_columns_def split: list.splits if_splits)

lemma target_rate_restrict [simp]:
  "target_rate ER k (\<lambda>c. if c = ''date'' \<or> c = ''currency'' then r c else NA) = target_rate ER k r"
  by (simp add: target_rate_def)

lemma base_rate_restrict [simp]:
  "base_rate ER (\<lambda>c. if c = ''date'' \<or> c = ''currency'' then r c else NA) = base_rate ER r"
  by (simp add: base_rate_def)

lemma target_rate_cong:
  "r ''date'' = r' ''date'' \<Longrightarrow> r ''currency'' = r' ''currency'' \<Longrightarrow>
   target_rate ER k r = target_rate ER k r'"
  by (simp add: target_rate_def)

lemma operation_step_Inr:
  assumes step: "operation_step ER f (Str X) = Inr f'"
  shows "length (rows f') = length (rows f)"
    and "set (columns f') = insert (''commission_'' @ X) (insert (''payment_'' @ X)
           (insert ''exchange_rate'' (set (columns f))))"
    and "\<forall>i<length (rows f). \<exists>rt p c. target_rate ER (Str X) (rows f ! i) = Inr rt
            \<and> cell_div ((rows f ! i) ''payment_RUB'') rt = Inr p
            \<and> cell_div ((rows f ! i) ''commission_RUB'') rt = Inr c
            \<and> rows f' ! i = (rows f ! i)(''exchange_rate'' := rt, ''payment_'' @ X := p,
                                          ''commission_'' @ X := c)"
proof -
  from step obtain sub rates f2 where
    sel: "select_columns f [''date'', ''currency''] = Inr sub" and
    tr: "traverse (target_rate ER (Str X)) (rows sub) = Inr rates" and
    d1: "divide_columns (setitem f ''exchange_rate'' rates) (''payment_'' @ X) ''payment_RUB''
           ''exchange_rate'' = Inr f2" and
    d2: "divide_columns f2 (''commission_'' @ X) ''commission_RUB'' ''exchange_rate'' = Inr f'"
    by (auto simp: operation_step_def and_then_Inr_iff Let_def)
  let ?f1 = "setitem f ''exchange_rate'' rates"
  have tr': "traverse (target_rate ER (Str X)) (rows f) = Inr rates"
    using tr unfolding select_date_currency(1) [OF sel] traverse_map by simp
  have lr: "length rates = length (rows f)"
    using traverse_Inr_length [OF tr'] .
  have l1: "length (rows ?f1) = length (rows f)"
    by (simp add: setitem_def lr)
  have l2: "length (rows f2) = length (rows f)"
    using divide_columns_Inr(4) [OF d1] l1 by simp
  show "length (rows f') = length (rows f)"
    using divide_columns_Inr(4) [OF d2] l2 by simp
  show "set (columns f') = insert (''commission_'' @ X) (insert (''payment_'' @ X)
           (insert ''exchange_rate'' (set (columns f))))"
    unfolding divide_columns_Inr(3) [OF d2] divide_columns_Inr(3) [OF d1]
    by (simp add: setitem_def)
  show "\<forall>i<length (rows f). \<exists>rt p c. target_rate ER (Str X) (rows f ! i) = Inr rt
            \<and> cell_div ((rows f ! i) ''payment_RUB'') rt = Inr p
            \<and> cell_div ((rows f ! i) ''commission_RUB'') rt = Inr c
            \<and> rows f' ! i = (rows f ! i)(''exchange_rate'' := rt, ''payment_'' @ X := p,
                                          ''commission_'' @ X := c)"
  proof (intro allI impI)
    fix i assume i: "i < length (rows f)"
    have rt: "target_rate ER (Str X) (rows f ! i) = Inr (rates ! i)"
      by (rule traverse_Inr_nth [OF tr' i])
    have r1: "rows ?f1 ! i = (rows f ! i)(''exchange_rate'' := rates ! i)"
      using i lr by (simp add: setitem_def)
    from divide_columns_Inr(5) [OF d1, rule_format, of i] i l1 obtain p where
      p: "cell_div ((rows ?f1 ! i) ''payment_RUB'') ((rows ?f1 ! i) ''exchange_rate'') = Inr p"
      and r2: "rows f2 ! i = (rows ?f1 ! i)(''payment_'' @ X := p)"
      by auto
    from divide_columns_Inr(5) [OF d2, rule_format, of i] i l2 obtain c where
      c: "cell_div ((rows f2 ! i) ''commission_RUB'') ((rows f2 ! i) ''exchange_rate'') = Inr c"
      and r3: "rows f' ! i = (rows f2 ! i)(''commission_'' @ X := c)"
      by auto
    have p': "cell_div ((rows f ! i) ''payment_RUB'') (rates ! i) = Inr p"
      using p by (simp add: r1)
    have c': "cell_div ((rows f ! i) ''commission_RUB'') (rates ! i) = Inr c"
      using c by (simp add: r2 r1)
    have "rows f' ! i = (rows f ! i)(''exchange_rate'' := rates ! i, ''payment_'' @ X := p,
                                          ''commission_'' @ X := c)"
      by (simp add: r3 r2 r1)
    with rt p' c' show "\<exists>rt p c. target_rate ER (Str X) (rows f ! i) = Inr rt
            \<and> cell_div ((rows f ! i) ''payment_RUB'') rt = Inr p
            \<and> cell_div ((rows f ! i) ''commission_RUB'') rt = Inr c
            \<and> rows f' ! i = (rows f ! i)(''exchange_rate'' := rt, ''payment_'' @ X := p,
                                          ''commission_'' @ X := c)"
      by blast
  qed
qed

lemma operation_step_keeps:
  assumes step: "operation_step ER f (Str X) = Inr f1"
    and i: "i < length (rows f)"
    and c: "c \<noteq> ''exchange_rate''" "c \<noteq> ''payment_'' @ X" "c \<noteq> ''commission_'' @ X"
  shows "(rows f1 ! i) c = (rows f ! i) c"
proof -
  from operation_step_Inr(3) [OF step, rule_format, OF i] obtain rt p q where
    "rows f1 ! i = (rows f ! i)(''exchange_rate'' := rt, ''payment_'' @ X := p,
                                          ''commission_'' @ X := q)"
    by blast
  then show ?thesis using c by simp
qed

lemma operation_loop:
  assumes "foldM (operation_step ER) f (map Str ks) = Inr f'"
    and "distinct ks"
    and "''RUB'' \<notin> set ks"
    and "''exchange_rate'' \<in> set (columns f)"
  shows "length (rows f') = length (rows f)
    \<and> set (columns f') = set (columns f) \<union> (\<lambda>k. ''payment_'' @ k) ` set ks
                           \<union> (\<lambda>k. ''commission_'' @ k) ` set ks
    \<and> (\<forall>i<length (rows f). \<forall>c. c \<noteq> ''exchange_rate'' \<and> c \<notin> (\<lambda>k. ''payment_'' @ k) ` set ks
            \<and> c \<notin> (\<lambda>k. ''commission_'' @ k) ` set ks \<longrightarrow> (rows f' ! i) c = (rows f ! i) c)
    \<and> (\<forall>i<length (rows f). \<forall>X \<in> set ks. \<exists>rt p c.
            target_rate ER (Str X) (rows f ! i) = Inr rt
            \<and> cell_div ((rows f ! i) ''payment_RUB'') rt = Inr p
            \<and> cell_div ((rows f ! i) ''commission_RUB'') rt = Inr c
            \<and> (rows f' ! i) (''payment_'' @ X) = p
            \<and> (rows f' ! i) (''commission_'' @ X) = c)"
  using assms
proof (induction ks arbitrary: f)
  case Nil
  then show ?case by simp
next
  case (Cons X ks)
  from Cons.prems(1) obtain f1 where
    step: "operation_step ER f (Str X) = Inr f1" and
    rest: "foldM (operation_step ER) f1 (map Str ks) = Inr f'"
    by (simp split: sum.splits)
  have d: "distinct ks" and nin: "X \<notin> set ks" and rub: "''RUB'' \<notin> set ks" and XR: "X \<noteq> ''RUB''"
    using Cons.prems(2,3) by auto
  have len1: "length (rows f1) = length (rows f)"
    by (rule operation_step_Inr(1) [OF step])
  have cols1: "set (columns f1) = insert (''commission_'' @ X) (insert (''payment_'' @ X)
           (insert ''exchange_rate'' (set (columns f))))"
    by (rule operation_step_Inr(2) [OF step])
  have er1: "''exchange_rate'' \<in> set (columns f1)"
    by (simp add: cols1)
  note IH = Cons.IH [OF rest d rub er1, unfolded len1]
  note IH1 = IH [THEN conjunct1]
  note IH2 = IH [THEN conjunct2, THEN conjunct1]
  note IH3 = IH [THEN conjunct2, THEN conjunct2, THEN conjunct1, rule_format]
  note IH4 = IH [THEN conjunct2, THEN conjunct2, THEN conjunct2, rule_format]
  have A: "length (rows f') = length (rows f)" by (rule IH1)
  have B: "set (columns f') = set (columns f) \<union> (\<lambda>k. ''payment_'' @ k) ` set (X # ks)
                           \<union> (\<lambda>k. ''commission_'' @ k) ` set (X # ks)"
    unfolding IH2 cols1 using Cons.prems(4) by auto
  have C: "\<forall>i<length (rows f). \<forall>c. c \<noteq> ''exchange_rate'' \<and> c \<notin> (\<lambda>k. ''payment_'' @ k) ` set (X # ks)
            \<and> c \<notin> (\<lambda>k. ''commission_'' @ k) ` set (X # ks) \<longrightarrow> (rows f' ! i) c = (rows f ! i) c"
  proof (intro allI impI)
    fix i c assume i: "i < length (rows f)"
      and c: "c \<noteq> ''exchange_rate'' \<and> c \<notin> (\<lambda>k. ''payment_'' @ k) ` set (X # ks)
            \<and> c \<notin> (\<lambda>k. ''commission_'' @ k) ` set (X # ks)"
    then have c1: "c \<noteq> ''exchange_rate''" "c \<noteq> ''payment_'' @ X" "c \<noteq> ''commission_'' @ X"
      and c2: "c \<noteq> ''exchange_rate'' \<and> c \<notin> (\<lambda>k. ''payment_'' @ k) ` set ks
            \<and> c \<notin> (\<lambda>k. ''commission_'' @ k) ` set ks"
      by simp_all
    have "(rows f' ! i) c = (rows f1 ! i) c" by (rule IH3 [OF i c2])
    with operation_step_keeps [OF step i c1] show "(rows f' ! i) c = (rows f ! i) c" by simp
  qed
  have keepRUB: "(rows f1 ! i) ''payment_RUB'' = (rows f ! i) ''payment_RUB''"
    "(rows f1 ! i) ''commission_RUB'' = (rows f ! i) ''commission_RUB''"
    "(rows f1 ! i) ''date'' = (rows f ! i) ''date''"
    "(rows f1 ! i) ''currency'' = (rows f ! i) ''currency''" if "i < length (rows f)" for i
    using XR by (simp_all add: operation_step_keeps [OF step that])
  have D: "\<forall>i<length (rows f). \<forall>Y \<in> set (X # ks). \<exists>rt p c.
            target_rate ER (Str Y) (rows f ! i) = Inr rt
            \<and> cell_div ((rows f ! i) ''payment_RUB'') rt = Inr p
            \<and> cell_div ((rows f ! i) ''commission_RUB'') rt = Inr c
            \<and> (rows f' ! i) (''payment_'' @ Y) = p
            \<and> (rows f' ! i) (''commission_'' @ Y) = c"
  proof (intro allI impI ballI)
    fix i Y assume i: "i < length (rows f)" and Y: "Y \<in> set (X # ks)"
    show "\<exists>rt p c. target_rate ER (Str Y) (rows f ! i) = Inr rt
            \<and> cell_div ((rows f ! i) ''payment_RUB'') rt = Inr p
            \<and> cell_div ((rows f ! i) ''commission_RUB'') rt = Inr c
            \<and> (rows f' ! i) (''payment_'' @ Y) = p
            \<and> (rows f' ! i) (''commission_'' @ Y) = c"
    proof (cases "Y = X")
      case True
      from operation_step_Inr(3) [OF step, rule_format, OF i] obtain rt p c where
        t: "target_rate ER (Str X) (rows f ! i) = Inr rt"
        and p: "cell_div ((rows f ! i) ''payment_RUB'') rt = Inr p"
        and c: "cell_div ((rows f ! i) ''commission_RUB'') rt = Inr c"
        and r: "rows f1 ! i = (rows f ! i)(''exchange_rate'' := rt, ''payment_'' @ X := p,
                                          ''commission_'' @ X := c)"
        by blast
      have np: "''payment_'' @ X \<noteq> ''exchange_rate'' \<and> ''payment_'' @ X \<notin> (\<lambda>k. ''payment_'' @ k) ` set ks
            \<and> ''payment_'' @ X \<notin> (\<lambda>k. ''commission_'' @ k) ` set ks"
        using nin by (auto simp: image_iff)
      have nc: "''commission_'' @ X \<noteq> ''exchange_rate'' \<and> ''commission_'' @ X \<notin> (\<lambda>k. ''payment_'' @ k) ` set ks
            \<and> ''commission_'' @ X \<notin> (\<lambda>k. ''commission_'' @ k) ` set ks"
        using nin by (auto simp: image_iff)
      have "(rows f' ! i) (''payment_'' @ X) = p"
        using IH3 [OF i np] by (simp add: r)
      moreover have "(rows f' ! i) (''commission_'' @ X) = c"
        using IH3 [OF i nc] by (simp add: r)
      ultimately show ?thesis using t p c True by blast
    next
      case False
      then have "Y \<in> set ks" using Y by simp
      from IH4 [OF i this] obtain rt p c where
        t: "target_rate ER (Str Y) (rows f1 ! i) = Inr rt"
        and p: "cell_div ((rows f1 ! i) ''payment_RUB'') rt = Inr p"
        and c: "cell_div ((rows f1 ! i) ''commission_RUB'') rt = Inr c"
        and r: "(rows f' ! i) (''payment_'' @ Y) = p" "(rows f' ! i) (''commission_'' @ Y) = c"
        by blast
      have "target_rate ER (Str Y) (rows f ! i) = Inr rt"
        using t target_rate_cong [OF keepRUB(3) [OF i] keepRUB(4) [OF i]] by simp
      with p c r show ?thesis by (auto simp: keepRUB [OF i])
    qed
  qed
  from A B C D show ?case by blast
qed

lemma columns_algebra:
  "(insert c (insert p (insert e A)) \<union> B \<union> C) - {e} = (A \<union> {p, c} \<union> B \<union> C) - {e}"
  by blast

lemma getattr_currency_tagged_rates:
  "a \<noteq> [] \<Longrightarrow> getattr (tag_frame (Some a) (rates_frame xr)) ''currency'' = Inr (map Str (map fst xr))"
  by (simp add: tagged_rates_frame getattr_def case_prod_unfold o_def)

lemma base_rate_cong:
  "r ''date'' = r' ''date'' \<Longrightarrow> r ''currency'' = r' ''currency'' \<Longrightarrow> base_rate ER r = base_rate ER r'"
  by (simp add: base_rate_def)

lemma convert_operations_Inr:
  assumes a: "a \<noteq> []"
    and d: "distinct (map fst xr)"
    and nrub: "''RUB'' \<notin> fst ` set xr"
    and ok: "convert_operations ER qf (tag_frame (Some a) (rates_frame xr)) = Inr Q"
  shows "length (rows Q) = length (rows qf)"
    and "set (columns Q) = (set (columns qf) \<union> {''payment_RUB'', ''commission_RUB''}
            \<union> (\<lambda>k. ''payment_'' @ k) ` fst ` set xr \<union> (\<lambda>k. ''commission_'' @ k) ` fst ` set xr)
            - {''exchange_rate''}"
    and "\<forall>i<length (rows qf). \<forall>c. c \<noteq> ''exchange_rate'' \<and> c \<noteq> ''payment_RUB'' \<and> c \<noteq> ''commission_RUB''
            \<and> c \<notin> (\<lambda>k. ''payment_'' @ k) ` fst ` set xr \<and> c \<notin> (\<lambda>k. ''commission_'' @ k) ` fst ` set xr
            \<longrightarrow> (rows Q ! i) c = (rows qf ! i) c"
    and "\<forall>i<length (rows qf). \<exists>rt pr cr. base_rate ER (rows qf ! i) = Inr rt
            \<and> cell_mul ((rows qf ! i) ''payment'') rt = Inr pr
            \<and> cell_mul ((rows qf ! i) ''commission'') rt = Inr cr
            \<and> (rows Q ! i) ''payment_RUB'' = pr \<and> (rows Q ! i) ''commission_RUB'' = cr
            \<and> (\<forall>X \<in> fst ` set xr. \<exists>tx p c. target_rate ER (Str X) (rows qf ! i) = Inr tx
                  \<and> cell_div pr tx = Inr p \<and> cell_div cr tx = Inr c
                  \<and> (rows Q ! i) (''payment_'' @ X) = p \<and> (rows Q ! i) (''commission_'' @ X) = c)"
proof -
  from ok obtain sub rates f2 f3 f' where
    sel: "select_columns qf [''date'', ''currency''] = Inr sub" and
    tr: "traverse (base_rate ER) (rows sub) = Inr rates" and
    m1: "multiply_columns (setitem qf ''exchange_rate'' rates) ''payment_RUB'' ''payment''
           ''exchange_rate'' = Inr f2" and
    m2: "multiply_columns f2 ''commission_RUB'' ''commission'' ''exchange_rate'' = Inr f3" and
    loop: "foldM (operation_step ER) f3 (map Str (map fst xr)) = Inr f'" and
    dr: "drop_column f' ''exchange_rate'' = Inr Q"
    unfolding convert_operations_def getattr_currency_tagged_rates [OF a]
    by (auto simp: and_then_Inr_iff Let_def)
  let ?f1 = "setitem qf ''exchange_rate'' rates"
  have tr': "traverse (base_rate ER) (rows qf) = Inr rates"
    using tr unfolding select_date_currency(1) [OF sel] traverse_map by simp
  have lr: "length rates = length (rows qf)"
    using traverse_Inr_length [OF tr'] .
  have l1: "length (rows ?f1) = length (rows qf)"
    by (simp add: setitem_def lr)
  have l2: "length (rows f2) = length (rows qf)"
    using multiply_columns_Inr(4) [OF m1] l1 by simp
  have l3: "length (rows f3) = length (rows qf)"
    using multiply_columns_Inr(4) [OF m2] l2 by simp
  have c3: "set (columns f3) = insert ''commission_RUB'' (insert ''payment_RUB''
              (insert ''exchange_rate'' (set (columns qf))))"
    unfolding multiply_columns_Inr(3) [OF m2] multiply_columns_Inr(3) [OF m1]
    by (simp add: setitem_def)
  have er3: "''exchange_rate'' \<in> set (columns f3)"
    by (simp add: c3)
  have dk: "distinct (map fst xr)" by (rule d)
  have rk: "''RUB'' \<notin> set (map fst xr)" using nrub by simp
  note L = operation_loop [OF loop dk rk er3, unfolded l3 set_map]
  note L1 = L [THEN conjunct1]
  note L2 = L [THEN conjunct2, THEN conjunct1]
  note L3 = L [THEN conjunct2, THEN conjunct2, THEN conjunct1, rule_format]
  note L4 = L [THEN conjunct2, THEN conjunct2, THEN conjunct2, rule_format]
  from dr have P: "Q = \<lparr>columns = filter (\<lambda>d. d \<noteq> ''exchange_rate'') (columns f'),
                 rows = map (\<lambda>r. r(''exchange_rate'' := NA)) (rows f')\<rparr>"
    by (auto simp: drop_column_def split: if_splits)
  show "length (rows Q) = length (rows qf)"
    by (simp add: P L1)
  show "set (columns Q) = (set (columns qf) \<union> {''payment_RUB'', ''commission_RUB''}
            \<union> (\<lambda>k. ''payment_'' @ k) ` fst ` set xr \<union> (\<lambda>k. ''commission_'' @ k) ` fst ` set xr)
            - {''exchange_rate''}"
  proof -
    have s1: "set (columns Q) = set (columns f') - {''exchange_rate''}"
      by (auto simp: P)
    show ?thesis unfolding s1 L2 c3 by (rule columns_algebra)
  qed
  have Qi: "rows Q ! i = (rows f' ! i)(''exchange_rate'' := NA)" if "i < length (rows qf)" for i
    using that L1 by (simp add: P)
  have row3: "\<exists>pr cr. cell_mul ((rows qf ! i) ''payment'') (rates ! i) = Inr pr
            \<and> cell_mul ((rows qf ! i) ''commission'') (rates ! i) = Inr cr
            \<and> rows f3 ! i = (rows qf ! i)(''exchange_rate'' := rates ! i, ''payment_RUB'' := pr,
                                          ''commission_RUB'' := cr)"
    if i: "i < length (rows qf)" for i
  proof -
    have r1: "rows ?f1 ! i = (rows qf ! i)(''exchange_rate'' := rates ! i)"
      using i lr by (simp add: setitem_def)
    from multiply_columns_Inr(5) [OF m1, rule_format, of i] i l1 obtain pr where
      p: "cell_mul ((rows ?f1 ! i) ''payment'') ((rows ?f1 ! i) ''exchange_rate'') = Inr pr"
      and r2: "rows f2 ! i = (rows ?f1 ! i)(''payment_RUB'' := pr)"
      by auto
    from multiply_columns_Inr(5) [OF m2, rule_format, of i] i l2 obtain cr where
      c: "cell_mul ((rows f2 ! i) ''commission'') ((rows f2 ! i) ''exchange_rate'') = Inr cr"
      and r3: "rows f3 ! i = (rows f2 ! i)(''commission_RUB'' := cr)"
      by auto
    have "cell_mul ((rows qf ! i) ''payment'') (rates ! i) = Inr pr"
      using p by (simp add: r1)
    moreover have "cell_mul ((rows qf ! i) ''commission'') (rates ! i) = Inr cr"
      using c by (simp add: r2 r1)
    moreover have "rows f3 ! i = (rows qf ! i)(''exchange_rate'' := rates ! i, ''payment_RUB'' := pr,
                                          ''commission_RUB'' := cr)"
      by (simp add: r3 r2 r1)
    ultimately show ?thesis by blast
  qed
  show "\<forall>i<length (rows qf). \<forall>c. c \<noteq> ''exchange_rate'' \<and> c \<noteq> ''payment_RUB'' \<and> c \<noteq> ''commission_RUB''
            \<and> c \<notin> (\<lambda>k. ''payment_'' @ k) ` fst ` set xr \<and> c \<notin> (\<lambda>k. ''commission_'' @ k) ` fst ` set xr
            \<longrightarrow> (rows Q ! i) c = (rows qf ! i) c"
  proof (intro allI impI)
    fix i c assume i: "i < length (rows qf)"
      and c: "c \<noteq> ''exchange_rate'' \<and> c \<noteq> ''payment_RUB'' \<and> c \<noteq> ''commission_RUB''
            \<and> c \<notin> (\<lambda>k. ''payment_'' @ k) ` fst ` set xr \<and> c \<notin> (\<lambda>k. ''commission_'' @ k) ` fst ` set xr"
    from row3 [OF i] obtain pr cr where
      r: "rows f3 ! i = (rows qf ! i)(''exchange_rate'' := rates ! i, ''payment_RUB'' := pr,
                                          ''commission_RUB'' := cr)"
      by blast
    have "(rows Q ! i) c = (rows f' ! i) c" using c by (simp add: Qi [OF i])
    also have "\<dots> = (rows f3 ! i) c" using L3 [OF i, of c] c by simp
    also have "\<dots> = (rows qf ! i) c" using c by (simp add: r)
    finally show "(rows Q ! i) c = (rows qf ! i) c" .
  qed
  show "\<forall>i<length (rows qf). \<exists>rt pr cr. base_rate ER (rows qf ! i) = Inr rt
            \<and> cell_mul ((rows qf ! i) ''payment'') rt = Inr pr
            \<and> cell_mul ((rows qf ! i) ''commission'') rt = Inr cr
            \<and> (rows Q ! i) ''payment_RUB'' = pr \<and> (rows Q ! i) ''commission_RUB'' = cr
            \<and> (\<forall>X \<in> fst ` set xr. \<exists>tx p c. target_rate ER (Str X) (rows qf ! i) = Inr tx
                  \<and> cell_div pr tx = Inr p \<and> cell_div cr tx = Inr c
                  \<and> (rows Q ! i) (''payment_'' @ X) = p \<and> (rows Q ! i) (''commission_'' @ X) = c)"
  proof (intro allI impI)
    fix i assume i: "i < length (rows qf)"
    have rt: "base_rate ER (rows qf ! i) = Inr (rates ! i)"
      by (rule traverse_Inr_nth [OF tr' i])
    from row3 [OF i] obtain pr cr where
      p: "cell_mul ((rows qf ! i) ''payment'') (rates ! i) = Inr pr" and
      c: "cell_mul ((rows qf ! i) ''commission'') (rates ! i) = Inr cr" and
      r: "rows f3 ! i = (rows qf ! i)(''exchange_rate'' := rates ! i, ''payment_RUB'' := pr,
                                          ''commission_RUB'' := cr)"
      by blast
    have np: "''payment_RUB'' \<noteq> ''exchange_rate'' \<and> ''payment_RUB'' \<notin> (\<lambda>k. ''payment_'' @ k) ` fst ` set xr
        \<and> ''payment_RUB'' \<notin> (\<lambda>k. ''commission_'' @ k) ` fst ` set xr"
      using nrub by (auto simp: image_iff)
    have nc: "''commission_RUB'' \<noteq> ''exchange_rate'' \<and> ''commission_RUB'' \<notin> (\<lambda>k. ''payment_'' @ k) ` fst ` set xr
        \<and> ''commission_RUB'' \<notin> (\<lambda>k. ''commission_'' @ k) ` fst ` set xr"
      using nrub by (auto simp: image_iff)
    have qp: "(rows Q ! i) ''payment_RUB'' = pr"
      using L3 [OF i np] by (simp add: Qi [OF i] r)
    have qc: "(rows Q ! i) ''commission_RUB'' = cr"
      using L3 [OF i nc] by (simp add: Qi [OF i] r)
    have each: "\<exists>tx p c. target_rate ER (Str X) (rows qf ! i) = Inr tx
                  \<and> cell_div pr tx = Inr p \<and> cell_div cr tx = Inr c
                  \<and> (rows Q ! i) (''payment_'' @ X) = p \<and> (rows Q ! i) (''commission_'' @ X) = c"
      if X: "X \<in> fst ` set xr" for X
    proof -
      from L4 [OF i X] obtain tx p' c' where
        t: "target_rate ER (Str X) (rows f3 ! i) = Inr tx" and
        p': "cell_div ((rows f3 ! i) ''payment_RUB'') tx = Inr p'" and
        c': "cell_div ((rows f3 ! i) ''commission_RUB'') tx = Inr c'" and
        q: "(rows f' ! i) (''payment_'' @ X) = p'" "(rows f' ! i) (''commission_'' @ X) = c'"
        by blast
      have "(rows f3 ! i) ''date'' = (rows qf ! i) ''date''"
        and "(rows f3 ! i) ''currency'' = (rows qf ! i) ''currency''"
        by (simp_all add: r)
      from target_rate_cong [OF this]
      have "target_rate ER (Str X) (rows qf ! i) = Inr tx"
        using t by simp
      moreover have "cell_div pr tx = Inr p'" using p' by (simp add: r)
      moreover have "cell_div cr tx = Inr c'" using c' by (simp add: r)
      moreover have "(rows Q ! i) (''payment_'' @ X) = p'" using q by (simp add: Qi [OF i])
      moreover have "(rows Q ! i) (''commission_'' @ X) = c'" using q by (simp add: Qi [OF i])
      ultimately show ?thesis
        by (intro exI [of _ tx] exI [of _ p'] exI [of _ c'] conjI) assumption+
    qed
    have all: "\<forall>X \<in> fst ` set xr. \<exists>tx p c. target_rate ER (Str X) (rows qf ! i) = Inr tx
                  \<and> cell_div pr tx = Inr p \<and> cell_div cr tx = Inr c
                  \<and> (rows Q ! i) (''payment_'' @ X) = p \<and> (rows Q ! i) (''commission_'' @ X) = c"
      by (intro ballI) (rule each)
    from rt p c qp qc all
    show "\<exists>rt pr cr. base_rate ER (rows qf ! i) = Inr rt
            \<and> cell_mul ((rows qf ! i) ''payment'') rt = Inr pr
            \<and> cell_mul ((rows qf ! i) ''commission'') rt = Inr cr
            \<and> (rows Q ! i) ''payment_RUB'' = pr \<and> (rows Q ! i) ''commission_RUB'' = cr
            \<and> (\<forall>X \<in> fst ` set xr. \<exists>tx p c. target_rate ER (Str X) (rows qf ! i) = Inr tx
                  \<and> cell_div pr tx = Inr p \<and> cell_div cr tx = Inr c
                  \<and> (rows Q ! i) (''payment_'' @ X) = p \<and> (rows Q ! i) (''commission_'' @ X) = c)"
      by (intro exI [of _ "rates ! i"] exI [of _ pr] exI [of _ cr] conjI) assumption+
  qed
qed

lemma tagged_operation_cells:
  assumes a: "a \<noteq> []" and j: "j < length os"
  shows "(rows (tag_frame (Some a) (DataFrame (map operation_row os) operations_columns)) ! j) ''date''
           = Date (op_date (os ! j))"
    and "(rows (tag_frame (Some a) (DataFrame (map operation_row os) operations_columns)) ! j) ''currency''
           = Str (strip_qualifier (op_currency (os ! j)))"
    and "(rows (tag_frame (Some a) (DataFrame (map operation_row os) operations_columns)) ! j) ''payment''
           = Num (payment (os ! j))"
    and "(rows (tag_frame (Some a) (DataFrame (map operation_row os) operations_columns)) ! j) ''commission''
           = (case commission (os ! j) of None \<Rightarrow> NA | Some m \<Rightarrow> Num (m_value m))"
    and "(rows (tag_frame (Some a) (DataFrame (map operation_row os) operations_columns)) ! j) ''account''
           = Str a"
  using a j
  by (simp_all add: rows_tag_frame DataFrame_def row_of_def operations_columns_def operation_row_def
      Let_def)

lemma base_rate_resolved:
  assumes "x ''date'' = Date d" and "x ''currency'' = Str cur" and "base_rate ER x = Inr rt"
  shows "\<exists>r. rt = Num r \<and> (if cur \<noteq> ''RUB'' then ER d cur = Inr r else r = 1)"
  using assms by (auto simp: base_rate_def historical_rate_def split: if_splits sum.splits)

lemma target_rate_resolved:
  assumes "x ''date'' = Date d" and "x ''currency'' = Str cur" and "target_rate ER (Str X) x = Inr rt"
  shows "\<exists>r. rt = Num r \<and> (if cur \<noteq> ''RUB'' then ER d X = Inr r else r = 1)"
  using assms by (auto simp: target_rate_def historical_rate_def split: if_splits sum.splits)

lemma cell_mul_commission:
  assumes "cell_mul (case com of None \<Rightarrow> NA | Some m \<Rightarrow> Num (m_value m)) (Num r) = Inr cr"
  shows "cr = (case com of None \<Rightarrow> NA | Some m \<Rightarrow> Num (m_value m * r))"
  using assms by (cases com) auto

lemma cell_div_commission:
  assumes "cell_div (case com of None \<Rightarrow> NA | Some m \<Rightarrow> Num (m_value m * r)) (Num t) = Inr c"
    and "t \<noteq> 0"
  shows "c = (case com of None \<Rightarrow> NA | Some m \<Rightarrow> Num (m_value m * r / t))"
  using assms by (cases com) auto

lemma prepare_data_operations:
  assumes ok: "prepare_data ER ps os xr acct = Inr (P, Q, E)"
    and d: "distinct (map fst xr)"
    and nrub: "''RUB'' \<notin> fst ` set xr"
    and j: "j < length os"
  shows "length (rows Q) = length os"
    and "\<exists>r. (if strip_qualifier (op_currency (os ! j)) \<noteq> ''RUB''
               then ER (op_date (os ! j)) (strip_qualifier (op_currency (os ! j))) = Inr r else r = 1)
          \<and> (rows Q ! j) ''payment_RUB'' = Num (payment (os ! j) * r)
          \<and> (rows Q ! j) ''commission_RUB'' =
               (case commission (os ! j) of None \<Rightarrow> NA | Some m \<Rightarrow> Num (m_value m * r))
          \<and> (\<forall>X \<in> fst ` set xr. \<exists>t.
                 (if strip_qualifier (op_currency (os ! j)) \<noteq> ''RUB''
                  then ER (op_date (os ! j)) X = Inr t else t = 1)
                 \<and> t \<noteq> 0
                 \<and> (rows Q ! j) (''payment_'' @ X) = Num (payment (os ! j) * r / t)
                 \<and> (rows Q ! j) (''commission_'' @ X) =
                     (case commission (os ! j) of None \<Rightarrow> NA | Some m \<Rightarrow> Num (m_value m * r / t)))"
proof -
  from prepare_data_Inr [OF ok] obtain a where a: "a \<noteq> []"
    and co: "convert_operations ER (tag_frame (Some a) (DataFrame (map operation_row os) operations_columns))
          (tag_frame (Some a) (rates_frame xr)) = Inr Q"
    by blast
  let ?qf = "tag_frame (Some a) (DataFrame (map operation_row os) operations_columns)"
  have lq: "length (rows ?qf) = length os"
    by (simp add: DataFrame_def)
  note R = convert_operations_Inr [OF a d nrub co, unfolded lq]
  show "length (rows Q) = length os" by (rule R(1))
  note cells = tagged_operation_cells [OF a j]
  let ?cur = "strip_qualifier (op_currency (os ! j))"
  let ?com = "commission (os ! j)"
  from R(4) [rule_format, OF j] obtain rt pr cr where
    rt: "base_rate ER (rows ?qf ! j) = Inr rt" and
    pr: "cell_mul ((rows ?qf ! j) ''payment'') rt = Inr pr" and
    cr: "cell_mul ((rows ?qf ! j) ''commission'') rt = Inr cr" and
    qp: "(rows Q ! j) ''payment_RUB'' = pr" and qc: "(rows Q ! j) ''commission_RUB'' = cr" and
    each: "\<forall>X \<in> fst ` set xr. \<exists>tx p c. target_rate ER (Str X) (rows ?qf ! j) = Inr tx
                  \<and> cell_div pr tx = Inr p \<and> cell_div cr tx = Inr c
                  \<and> (rows Q ! j) (''payment_'' @ X) = p \<and> (rows Q ! j) (''commission_'' @ X) = c"
    by blast
  from base_rate_resolved [OF cells(1) cells(2) rt] obtain r where
    r: "rt = Num r" and rr: "if ?cur \<noteq> ''RUB'' then ER (op_date (os ! j)) ?cur = Inr r else r = 1"
    by blast
  have pr': "pr = Num (payment (os ! j) * r)"
    using pr by (simp add: cells(3) r)
  have cr': "cr = (case ?com of None \<Rightarrow> NA | Some m \<Rightarrow> Num (m_value m * r))"
    using cr unfolding cells(4) r by (rule cell_mul_commission)
  have all: "\<forall>X \<in> fst ` set xr. \<exists>t.
                 (if ?cur \<noteq> ''RUB'' then ER (op_date (os ! j)) X = Inr t else t = 1)
                 \<and> t \<noteq> 0
                 \<and> (rows Q ! j) (''payment_'' @ X) = Num (payment (os ! j) * r / t)
                 \<and> (rows Q ! j) (''commission_'' @ X) =
                     (case ?com of None \<Rightarrow> NA | Some m \<Rightarrow> Num (m_value m * r / t))"
  proof (intro ballI)
    fix X assume X: "X \<in> fst ` set xr"
    from each [rule_format, OF X] obtain tx p c where
      tx: "target_rate ER (Str X) (rows ?qf ! j) = Inr tx" and
      p: "cell_div pr tx = Inr p" and c: "cell_div cr tx = Inr c" and
      q: "(rows Q ! j) (''payment_'' @ X) = p" "(rows Q ! j) (''commission_'' @ X) = c"
      by blast
    from target_rate_resolved [OF cells(1) cells(2) tx] obtain t where
      t: "tx = Num t" and tt: "if ?cur \<noteq> ''RUB'' then ER (op_date (os ! j)) X = Inr t else t = 1"
      by blast
    from p have "cell_div (Num (payment (os ! j) * r)) (Num t) = Inr p"
      by (simp add: pr' t)
    from cell_div_Num [OF this] have t0: "t \<noteq> 0" and p': "p = Num (payment (os ! j) * r / t)"
      by simp_all
    from c have "cell_div (case ?com of None \<Rightarrow> NA | Some m \<Rightarrow> Num (m_value m * r)) (Num t) = Inr c"
      by (simp add: cr' t)
    from cell_div_commission [OF this t0]
    have c': "c = (case ?com of None \<Rightarrow> NA | Some m \<Rightarrow> Num (m_value m * r / t))" .
    from tt t0 q p' c'
    show "\<exists>t. (if ?cur \<noteq> ''RUB'' then ER (op_date (os ! j)) X = Inr t else t = 1)
                 \<and> t \<noteq> 0
                 \<and> (rows Q ! j) (''payment_'' @ X) = Num (payment (os ! j) * r / t)
                 \<and> (rows Q ! j) (''commission_'' @ X) =
                     (case ?com of None \<Rightarrow> NA | Some m \<Rightarrow> Num (m_value m * r / t))"
      by (intro exI [of _ t] conjI) simp_all
  qed
  from rr qp qc all pr' cr'
  show "\<exists>r. (if ?cur \<noteq> ''RUB'' then ER (op_date (os ! j)) ?cur = Inr r else r = 1)
          \<and> (rows Q ! j) ''payment_RUB'' = Num (payment (os ! j) * r)
          \<and> (rows Q ! j) ''commission_RUB'' =
               (case ?com of None \<Rightarrow> NA | Some m \<Rightarrow> Num (m_value m * r))
          \<and> (\<forall>X \<in> fst ` set xr. \<exists>t.
                 (if ?cur \<noteq> ''RUB'' then ER (op_date (os ! j)) X = Inr t else t = 1)
                 \<and> t \<noteq> 0
                 \<and> (rows Q ! j) (''payment_'' @ X) = Num (payment (os ! j) * r / t)
                 \<and> (rows Q ! j) (''commission_'' @ X) =
                     (case ?com of None \<Rightarrow> NA | Some m \<Rightarrow> Num (m_value m * r / t)))"
    by (intro exI [of _ r] conjI) simp_all
qed

text \<open>
  C4. The base-currency rate of an operation row is 1 when the row's currency is the
  rouble, whatever the collaborator would answer (it is not asked), and otherwise what
  the collaborator returns for the row's currency on the row's date;
  \<open>payment_RUB\<close> and \<open>commission_RUB\<close> are the payment and the commission times that
  rate, and a missing commission stays missing. The rate snapshot is a dictionary with no
  entry for the base currency.
\<close>

theorem operation_base_amounts:
  assumes "prepare_data ER ps os xr acct = Inr (P, Q, E)"
    and "distinct (map fst xr)"
    and "''RUB'' \<notin> fst ` set xr"
    and "j < length os"
  shows "length (rows Q) = length os
    \<and> (\<forall>ER'. x ''currency'' = Str ''RUB'' \<longrightarrow> base_rate ER' x = Inr (Num 1))
    \<and> (strip_qualifier (op_currency (os ! j)) = ''RUB'' \<longrightarrow>
          (rows Q ! j) ''payment_RUB'' = Num (payment (os ! j) * 1)
          \<and> (rows Q ! j) ''commission_RUB'' =
               (case commission (os ! j) of None \<Rightarrow> NA | Some m \<Rightarrow> Num (m_value m * 1)))
    \<and> (strip_qualifier (op_currency (os ! j)) \<noteq> ''RUB'' \<longrightarrow>
          (\<exists>r. ER (op_date (os ! j)) (strip_qualifier (op_currency (os ! j))) = Inr r
             \<and> (rows Q ! j) ''payment_RUB'' = Num (payment (os ! j) * r)
             \<and> (rows Q ! j) ''commission_RUB'' =
                  (case commission (os ! j) of None \<Rightarrow> NA | Some m \<Rightarrow> Num (m_value m * r))))"
proof -
  from prepare_data_operations(2) [OF assms] obtain r where
    r: "if strip_qualifier (op_currency (os ! j)) \<noteq> ''RUB''
        then ER (op_date (os ! j)) (strip_qualifier (op_currency (os ! j))) = Inr r else r = 1"
    and p: "(rows Q ! j) ''payment_RUB'' = Num (payment (os ! j) * r)"
    and c: "(rows Q ! j) ''commission_RUB'' =
               (case commission (os ! j) of None \<Rightarrow> NA | Some m \<Rightarrow> Num (m_value m * r))"
    by blast
  have b: "\<forall>ER'. x ''currency'' = Str ''RUB'' \<longrightarrow> base_rate ER' x = Inr (Num 1)"
    by (simp add: base_rate_def)
  show ?thesis
  proof (cases "strip_qualifier (op_currency (os ! j)) = ''RUB''")
    case True
    with r have r1: "r = 1" by simp
    from p c True b prepare_data_operations(1) [OF assms] show ?thesis
      unfolding r1 by simp
  next
    case False
    with r have "ER (op_date (os ! j)) (strip_qualifier (op_currency (os ! j))) = Inr r" by simp
    with p c False b prepare_data_operations(1) [OF assms] show ?thesis by simp
  qed
qed

theorem operation_base_amounts_witness:
  "\<exists>P Q E. prepare_data ex_lookup [ex_position_usd] [ex_operation_usd, ex_operation_rub]
       [(''USD'', 90)] (Some ''Main'') = Inr (P, Q, E)
     \<and> ex_lookup 8 ''RUB'' = Inl (RateUnavailableError 8 ''RUB'')
     \<and> length (rows Q) = 2
     \<and> (rows Q ! 0) ''payment_RUB'' = Num 950 \<and> (rows Q ! 0) ''commission_RUB'' = Num 95
     \<and> (rows Q ! 1) ''payment_RUB'' = Num 100 \<and> (rows Q ! 1) ''commission_RUB'' = NA"
proof -
  let ?os = "[ex_operation_usd, ex_operation_rub]"
  let ?xr = "[(''USD'', 90 :: rat)]"
  have "is_ok (prepare_data ex_lookup [ex_position_usd] ?os ?xr (Some ''Main''))"
    by code_simp
  then obtain P Q E where
    ok: "prepare_data ex_lookup [ex_position_usd] ?os ?xr (Some ''Main'') = Inr (P, Q, E)"
    using is_ok_obtain by (metis prod_cases3)
  have d: "distinct (map fst ?xr)" by simp
  have h: "''RUB'' \<notin> fst ` set ?xr" by simp
  have s: "strip_qualifier ''RUB'' = ''RUB''" "strip_qualifier ''USD'' = ''USD''"
    by (simp_all add: strip_qualifier_no_separator)
  from operation_base_amounts [OF ok d h, of 0]
  have r0: "length (rows Q) = 2 \<and> (rows Q ! 0) ''payment_RUB'' = Num 950
      \<and> (rows Q ! 0) ''commission_RUB'' = Num 95"
    by (auto simp: ex_operation_usd_def ex_lookup_def s)
  from operation_base_amounts [OF ok d h, of 1]
  have r1: "(rows Q ! 1) ''payment_RUB'' = Num 100 \<and> (rows Q ! 1) ''commission_RUB'' = NA"
    by (auto simp: ex_operation_rub_def s)
  from ok r0 r1 show ?thesis by (simp add: ex_lookup_def)
qed

text \<open>
  C2, as the code has it. For a currency \<open>X\<close> of the rate snapshot, the rate that divides
  \<open>payment_RUB\<close> and \<open>commission_RUB\<close> is 1 when the row's currency is the rouble, and
  otherwise what the collaborator returns for \<open>X\<close> on the row's date, also when the
  row's currency is \<open>X\<close> itself; a missing commission stays missing.
\<close>

theorem operation_amounts_in_snapshot_currency:
  assumes "prepare_data ER ps os xr acct = Inr (P, Q, E)"
    and "distinct (map fst xr)"
    and "''RUB'' \<notin> fst ` set xr"
    and "j < length os"
    and "X \<in> fst ` set xr"
  shows "\<exists>pr t. (rows Q ! j) ''payment_RUB'' = Num pr
    \<and> (strip_qualifier (op_currency (os ! j)) = ''RUB'' \<longrightarrow> t = 1)
    \<and> (strip_qualifier (op_currency (os ! j)) \<noteq> ''RUB'' \<longrightarrow> ER (op_date (os ! j)) X = Inr t)
    \<and> t \<noteq> 0
    \<and> (rows Q ! j) (''payment_'' @ X) = Num (pr / t)
    \<and> cell_div ((rows Q ! j) ''commission_RUB'') (Num t) = Inr ((rows Q ! j) (''commission_'' @ X))"
proof -
  from prepare_data_operations(2) [OF assms(1-4)] obtain r where
    p: "(rows Q ! j) ''payment_RUB'' = Num (payment (os ! j) * r)"
    and c: "(rows Q ! j) ''commission_RUB'' =
               (case commission (os ! j) of None \<Rightarrow> NA | Some m \<Rightarrow> Num (m_value m * r))"
    and each: "\<forall>X \<in> fst ` set xr. \<exists>t.
                 (if strip_qualifier (op_currency (os ! j)) \<noteq> ''RUB''
                  then ER (op_date (os ! j)) X = Inr t else t = 1)
                 \<and> t \<noteq> 0
                 \<and> (rows Q ! j) (''payment_'' @ X) = Num (payment (os ! j) * r / t)
                 \<and> (rows Q ! j) (''commission_'' @ X) =
                     (case commission (os ! j) of None \<Rightarrow> NA | Some m \<Rightarrow> Num (m_value m * r / t))"
    by blast
  from each [rule_format, OF assms(5)] obtain t where
    t: "if strip_qualifier (op_currency (os ! j)) \<noteq> ''RUB''
        then ER (op_date (os ! j)) X = Inr t else t = 1"
    and t0: "t \<noteq> 0"
    and px: "(rows Q ! j) (''payment_'' @ X) = Num (payment (os ! j) * r / t)"
    and cx: "(rows Q ! j) (''commission_'' @ X) =
                     (case commission (os ! j) of None \<Rightarrow> NA | Some m \<Rightarrow> Num (m_value m * r / t))"
    by blast
  have dv: "cell_div ((rows Q ! j) ''commission_RUB'') (Num t) = Inr ((rows Q ! j) (''commission_'' @ X))"
    unfolding c cx using t0 by (cases "commission (os ! j)") simp_all
  have t1: "strip_qualifier (op_currency (os ! j)) = ''RUB'' \<longrightarrow> t = 1"
    using t by simp
  have t2: "strip_qualifier (op_currency (os ! j)) \<noteq> ''RUB'' \<longrightarrow> ER (op_date (os ! j)) X = Inr t"
    using t by simp
  from p t1 t2 t0 px dv show ?thesis
    by (intro exI [of _ "payment (os ! j) * r"] exI [of _ t] conjI) assumption+
qed

theorem operation_amounts_in_snapshot_currency_witness:
  "\<exists>P Q E. prepare_data ex_lookup [ex_position_usd] [ex_operation_usd, ex_operation_rub]
       [(''USD'', 90)] (Some ''Main'') = Inr (P, Q, E)
     \<and> (rows Q ! 0) ''payment_RUB'' = Num 950 \<and> (rows Q ! 0) ''payment_USD'' = Num 10
     \<and> (rows Q ! 1) ''payment_RUB'' = Num 100 \<and> (rows Q ! 1) ''payment_USD'' = Num 100"
proof -
  let ?os = "[ex_operation_usd, ex_operation_rub]"
  let ?xr = "[(''USD'', 90 :: rat)]"
  have e: "case prepare_data ex_lookup [ex_position_usd] ?os ?xr (Some ''Main'') of
             Inl e \<Rightarrow> False
           | Inr (P, Q, E) \<Rightarrow> (rows Q ! 0) ''payment_RUB'' = Num 950
                \<and> (rows Q ! 1) ''payment_RUB'' = Num 100"
    by code_simp
  then obtain P Q E where
    ok: "prepare_data ex_lookup [ex_position_usd] ?os ?xr (Some ''Main'') = Inr (P, Q, E)"
    by (auto split: sum.splits)
  from e have pr: "(rows Q ! 0) ''payment_RUB'' = Num 950" "(rows Q ! 1) ''payment_RUB'' = Num 100"
    by (simp_all add: ok)
  have d: "distinct (map fst ?xr)" by simp
  have h: "''RUB'' \<notin> fst ` set ?xr" by simp
  have m: "''USD'' \<in> fst ` set ?xr" by simp
  have s: "strip_qualifier ''RUB'' = ''RUB''" "strip_qualifier ''USD'' = ''USD''"
    by (simp_all add: strip_qualifier_no_separator)
  from operation_amounts_in_snapshot_currency [OF ok d h _ m, of 0]
  have r0: "(rows Q ! 0) ''payment_USD'' = Num 10"
    using pr by (auto simp: ex_operation_usd_def ex_lookup_def s)
  from operation_amounts_in_snapshot_currency [OF ok d h _ m, of 1]
  have r1: "(rows Q ! 1) ''payment_USD'' = Num 100"
    using pr by (auto simp: ex_operation_rub_def s)
  from ok pr r0 r1 show ?thesis by blast
qed

text \<open>
  C2, as the specification states it, fails. A dollar operation of payment 10, with the
  dollar at 95 on its date, has \<open>payment_RUB = 950\<close>; the specification resolves the rate
  to the dollar as 1, since the row is already in dollars, so \<open>payment_USD\<close> would be
  \<open>950 / 1\<close>; the code divides by the historical rate and gives 10. A rouble operation of
  payment 100 is divided by 1, not by the historical dollar rate 95.
\<close>

theorem operation_rate_own_currency_counterexample:
  "case prepare_data ex_lookup [ex_position_usd] [ex_operation_usd, ex_operation_rub]
          [(''USD'', 90)] (Some ''Main'') of
     Inl e \<Rightarrow> False
   | Inr (P, Q, E) \<Rightarrow>
       (rows Q ! 0) ''currency'' = Str ''USD''
       \<and> (rows Q ! 0) ''payment_RUB'' = Num 950
       \<and> (rows Q ! 0) ''payment_USD'' = Num 10
       \<and> (rows Q ! 0) ''payment_USD'' \<noteq> Num (950 / 1)
       \<and> (rows Q ! 1) ''currency'' = Str ''RUB''
       \<and> ex_lookup (op_date ex_operation_rub) ''USD'' = Inr 95
       \<and> (rows Q ! 1) ''payment_RUB'' = Num 100
       \<and> (rows Q ! 1) ''payment_USD'' = Num 100
       \<and> (rows Q ! 1) ''payment_USD'' \<noteq> Num (100 / 95)"
  by code_simp

section \<open>Concatenating the accounts\<close>

lemma foldl_add_column_set:
  "set (foldl (\<lambda>acc c. add_column c acc) acc cs) = set acc \<union> set cs"
  by (induction cs arbitrary: acc) auto

lemma set_union_columns: "set (union_columns colss) = \<Union> (set ` set colss)"
  by (simp add: union_columns_def foldl_add_column_set)

lemma length_reindex [simp]: "length (reindex df) = length (rows df)"
  by (simp add: reindex_def)

lemma reindex_nth:
  "i < length (rows df) \<Longrightarrow> (reindex df ! i) c = (if c \<in> set (columns df) then (rows df ! i) c else NA)"
  by (simp add: reindex_def)

lemma reindex_cell:
  "r \<in> set (reindex df) \<Longrightarrow> \<exists>r0 \<in> set (rows df). \<forall>c. r c = (if c \<in> set (columns df) then r0 c else NA)"
  by (auto simp: reindex_def)

lemma length_concat_sum: "length (concat (map f xs)) = sum_list (map (\<lambda>x. length (f x)) xs)"
  by (induction xs) simp_all

lemma filter_concat_block:
  assumes "k < length bs"
    and "\<forall>r \<in> set (bs ! k). p r"
    and "\<forall>j<length bs. j \<noteq> k \<longrightarrow> (\<forall>r \<in> set (bs ! j). \<not> p r)"
  shows "filter p (concat bs) = bs ! k"
  using assms
proof (induction bs arbitrary: k)
  case Nil
  then show ?case by simp
next
  case (Cons b bs)
  show ?case
  proof (cases k)
    case 0
    have all: "\<forall>r \<in> set b. p r" using Cons.prems(2) 0 by simp
    have "\<forall>r \<in> set (concat bs). \<not> p r"
    proof
      fix r assume "r \<in> set (concat bs)"
      then obtain b' where "b' \<in> set bs" "r \<in> set b'"
        by auto
      then obtain j where j: "j < length bs" "r \<in> set (bs ! j)"
        by (metis in_set_conv_nth)
      with Cons.prems(3) [rule_format, of "Suc j"] 0 show "\<not> p r" by simp
    qed
    then have "filter p (concat bs) = []" by (simp add: filter_empty_conv)
    moreover have "filter p b = b" using all by (simp add: filter_id_conv)
    ultimately show ?thesis using 0 by simp
  next
    case (Suc k')
    have none: "\<forall>r \<in> set b. \<not> p r"
      using Cons.prems(3) [rule_format, of 0] Suc by simp
    have k': "k' < length bs" using Cons.prems(1) Suc by simp
    have a: "\<forall>r \<in> set (bs ! k'). p r" using Cons.prems(2) Suc by simp
    have b: "\<forall>j<length bs. j \<noteq> k' \<longrightarrow> (\<forall>r \<in> set (bs ! j). \<not> p r)"
    proof (intro allI impI)
      fix j assume "j < length bs" "j \<noteq> k'"
      with Cons.prems(3) [rule_format, of "Suc j"] Suc show "\<forall>r \<in> set (bs ! j). \<not> p r" by simp
    qed
    from Cons.IH [OF k' a b] none Suc show ?thesis
      by (simp add: filter_empty_conv)
  qed
qed

lemma concat_accounts_Inr:
  assumes "concat_accounts ER accounts = Inr (R0, R1, R2)"
  shows "\<exists>ts. traverse (\<lambda>(key, val). case val of (portfolio, operations, exchange_rates) \<Rightarrow>
                  prepare_data ER portfolio operations exchange_rates (Some key)) accounts = Inr ts
    \<and> ts \<noteq> []
    \<and> R0 = \<lparr>columns = union_columns (map (\<lambda>t. columns (fst t)) ts),
             rows = concat (map (\<lambda>t. reindex (fst t)) ts)\<rparr>
    \<and> R1 = \<lparr>columns = union_columns (map (\<lambda>t. columns (fst (snd t))) ts),
             rows = concat (map (\<lambda>t. reindex (fst (snd t))) ts)\<rparr>
    \<and> R2 = \<lparr>columns = union_columns (map (\<lambda>t. columns (snd (snd t))) ts),
             rows = concat (map (\<lambda>t. reindex (snd (snd t))) ts)\<rparr>"
  using assms
  by (auto simp: concat_accounts_def and_then_Inr_iff concat_frames_def o_def split: if_splits)

lemma tag_frame_account_cell:
  "a \<noteq> [] \<Longrightarrow> i < length (rows df) \<Longrightarrow> (rows (tag_frame (Some a) df) ! i) ''account'' = Str a"
  by (simp add: rows_tag_frame)

lemma prepared_positions_account:
  assumes ok: "prepare_data ER ps os xr (Some key) = Inr (P, Q, E)"
    and d: "distinct (map fst xr)"
  shows "''account'' \<in> set (columns P)"
    and "\<forall>r \<in> set (rows P). r ''account'' = Str key"
    and "set (columns P) = set tagged_columns \<union> {''value_RUB''} \<union> (\<lambda>k. ''value_'' @ k) ` fst ` set xr"
proof -
  from prepare_data_Inr [OF ok] obtain prows where a: "key \<noteq> []"
    and cp: "convert_portfolio (tag_frame (Some key) (DataFrame prows portfolio_columns))
          (tag_frame (Some key) (rates_frame xr)) = Inr P"
    by auto
  let ?pf = "tag_frame (Some key) (DataFrame prows portfolio_columns)"
  note cols = columns_tagged_positions [OF a, of prows]
  note R = convert_portfolio_filled [OF cols d a cp]
  show c: "set (columns P) = set tagged_columns \<union> {''value_RUB''} \<union> (\<lambda>k. ''value_'' @ k) ` fst ` set xr"
    by (rule R(3))
  show "''account'' \<in> set (columns P)"
    unfolding c using tagged_members(3) by simp
  show "\<forall>r \<in> set (rows P). r ''account'' = Str key"
  proof
    fix r assume "r \<in> set (rows P)"
    then obtain i where i: "i < length (rows P)" and r: "r = rows P ! i"
      by (auto simp: in_set_conv_nth)
    have i': "i < length (rows ?pf)" using i R(1) by simp
    from R(2) [rule_format, OF i' tagged_members(3)]
    have "(rows P ! i) ''account'' = fill_cell (Num 1) ((rows ?pf ! i) ''account'')" .
    also have "(rows ?pf ! i) ''account'' = Str key"
      using tag_frame_account_cell [OF a, of i "DataFrame prows portfolio_columns"] i' by simp
    finally show "r ''account'' = Str key" by (simp add: r fill_cell_def)
  qed
qed

text \<open>
  C7. When \<^verbatim>\<open>concat_accounts\<close> returns, every account was prepared, in the order of the
  mapping, and each combined table holds the rows of the accounts' tables one account
  after the other, each account's rows in their order, nothing dropped, merged or
  sorted: its row count is the sum of the accounts' row counts. The rows are re-indexed
  on the union of the columns: under its own table's columns a row keeps its cells.
  Selecting the rows of the combined positions table whose account cell is the tag of an
  account gives exactly that account's rows, in order. The account mapping and the rate
  snapshots are dictionaries (distinct keys).
\<close>

theorem concat_accounts_keeps_rows:
  assumes "concat_accounts ER accounts = Inr (R0, R1, R2)"
    and "distinct (map fst accounts)"
    and "\<forall>(key, ps, os, xr) \<in> set accounts. distinct (map fst xr)"
  shows "\<exists>ts. length ts = length accounts
    \<and> (\<forall>k<length accounts. case accounts ! k of (key, ps, os, xr) \<Rightarrow>
          prepare_data ER ps os xr (Some key) = Inr (ts ! k))
    \<and> rows R0 = concat (map (\<lambda>t. reindex (fst t)) ts)
    \<and> rows R1 = concat (map (\<lambda>t. reindex (fst (snd t))) ts)
    \<and> rows R2 = concat (map (\<lambda>t. reindex (snd (snd t))) ts)
    \<and> length (rows R0) = sum_list (map (\<lambda>t. length (rows (fst t))) ts)
    \<and> length (rows R1) = sum_list (map (\<lambda>t. length (rows (fst (snd t)))) ts)
    \<and> length (rows R2) = sum_list (map (\<lambda>t. length (rows (snd (snd t)))) ts)
    \<and> (\<forall>k<length accounts.
          filter (\<lambda>r. r ''account'' = Str (fst (accounts ! k))) (rows R0) = reindex (fst (ts ! k))
          \<and> (\<forall>i<length (rows (fst (ts ! k))). \<forall>c. c \<in> set (columns (fst (ts ! k))) \<longrightarrow>
                (reindex (fst (ts ! k)) ! i) c = (rows (fst (ts ! k)) ! i) c))"
proof -
  from concat_accounts_Inr [OF assms(1)] obtain ts where
    tr: "traverse (\<lambda>(key, val). case val of (portfolio, operations, exchange_rates) \<Rightarrow>
                  prepare_data ER portfolio operations exchange_rates (Some key)) accounts = Inr ts"
    and R0: "R0 = \<lparr>columns = union_columns (map (\<lambda>t. columns (fst t)) ts),
             rows = concat (map (\<lambda>t. reindex (fst t)) ts)\<rparr>"
    and R1: "R1 = \<lparr>columns = union_columns (map (\<lambda>t. columns (fst (snd t))) ts),
             rows = concat (map (\<lambda>t. reindex (fst (snd t))) ts)\<rparr>"
    and R2: "R2 = \<lparr>columns = union_columns (map (\<lambda>t. columns (snd (snd t))) ts),
             rows = concat (map (\<lambda>t. reindex (snd (snd t))) ts)\<rparr>"
    by blast
  have len: "length ts = length accounts"
    using tr by (rule traverse_Inr_length)
  have each: "case accounts ! k of (key, ps, os, xr) \<Rightarrow>
          prepare_data ER ps os xr (Some key) = Inr (ts ! k)" if "k < length accounts" for k
    using traverse_Inr_nth [OF tr that] by (simp add: case_prod_unfold)
  have acc: "\<forall>r \<in> set (reindex (fst (ts ! k))). r ''account'' = Str (fst (accounts ! k))"
    if k: "k < length accounts" for k
  proof
    fix r assume r: "r \<in> set (reindex (fst (ts ! k)))"
    obtain key ps os xr where ak: "accounts ! k = (key, ps, os, xr)"
      by (metis prod_cases4)
    obtain P Q E where tk: "ts ! k = (P, Q, E)"
      by (metis prod_cases3)
    have ok: "prepare_data ER ps os xr (Some key) = Inr (P, Q, E)"
      using each [OF k] by (simp add: ak tk)
    have "(key, ps, os, xr) \<in> set accounts"
      using k ak by (metis nth_mem)
    with assms(3) have d: "distinct (map fst xr)" by auto
    from reindex_cell [OF r] obtain r0 where r0: "r0 \<in> set (rows P)"
      and rc: "\<forall>c. r c = (if c \<in> set (columns P) then r0 c else NA)"
      by (auto simp: tk)
    from prepared_positions_account(1,2) [OF ok d] r0 rc
    show "r ''account'' = Str (fst (accounts ! k))"
      by (simp add: ak)
  qed
  have flt: "filter (\<lambda>r. r ''account'' = Str (fst (accounts ! k))) (rows R0) = reindex (fst (ts ! k))"
    if k: "k < length accounts" for k
  proof -
    let ?bs = "map (\<lambda>t. reindex (fst t)) ts"
    have kb: "k < length ?bs" using k len by simp
    have a: "\<forall>r \<in> set (?bs ! k). r ''account'' = Str (fst (accounts ! k))"
      using acc [OF k] k len by simp
    have b: "\<forall>j<length ?bs. j \<noteq> k \<longrightarrow>
               (\<forall>r \<in> set (?bs ! j). \<not> r ''account'' = Str (fst (accounts ! k)))"
    proof (intro allI impI ballI)
      fix j r assume j: "j < length ?bs" and jk: "j \<noteq> k" and r: "r \<in> set (?bs ! j)"
      have j': "j < length accounts" using j len by simp
      have "r ''account'' = Str (fst (accounts ! j))"
        using acc [OF j'] r j' len by simp
      moreover have "fst (accounts ! j) \<noteq> fst (accounts ! k)"
        using assms(2) j' k jk by (simp add: distinct_conv_nth)
      ultimately show "\<not> r ''account'' = Str (fst (accounts ! k))" by simp
    qed
    from filter_concat_block [OF kb a b] show ?thesis
      using k len by (simp add: R0)
  qed
  have own: "\<forall>i<length (rows (fst (ts ! k))). \<forall>c. c \<in> set (columns (fst (ts ! k))) \<longrightarrow>
                (reindex (fst (ts ! k)) ! i) c = (rows (fst (ts ! k)) ! i) c" for k
    by (simp add: reindex_nth)
  have l0: "length (rows R0) = sum_list (map (\<lambda>t. length (rows (fst t))) ts)"
    by (simp add: R0 length_concat_sum)
  have l1: "length (rows R1) = sum_list (map (\<lambda>t. length (rows (fst (snd t)))) ts)"
    by (simp add: R1 length_concat_sum)
  have l2: "length (rows R2) = sum_list (map (\<lambda>t. length (rows (snd (snd t)))) ts)"
    by (simp add: R2 length_concat_sum)
  have r0: "rows R0 = concat (map (\<lambda>t. reindex (fst t)) ts)" by (simp add: R0)
  have r1: "rows R1 = concat (map (\<lambda>t. reindex (fst (snd t))) ts)" by (simp add: R1)
  have r2: "rows R2 = concat (map (\<lambda>t. reindex (snd (snd t))) ts)" by (simp add: R2)
  have e: "\<forall>k<length accounts. case accounts ! k of (key, ps, os, xr) \<Rightarrow>
          prepare_data ER ps os xr (Some key) = Inr (ts ! k)"
    using each by blast
  have f: "\<forall>k<length accounts.
          filter (\<lambda>r. r ''account'' = Str (fst (accounts ! k))) (rows R0) = reindex (fst (ts ! k))
          \<and> (\<forall>i<length (rows (fst (ts ! k))). \<forall>c. c \<in> set (columns (fst (ts ! k))) \<longrightarrow>
                (reindex (fst (ts ! k)) ! i) c = (rows (fst (ts ! k)) ! i) c)"
    using flt own by blast
  from len e r0 r1 r2 l0 l1 l2 f show ?thesis
    by (intro exI [of _ ts] conjI) assumption+
qed

theorem concat_accounts_keeps_rows_witness:
  "\<exists>R0 R1 R2. concat_accounts ex_lookup ex_accounts = Inr (R0, R1, R2)
     \<and> length (rows R0) = 3 \<and> length (rows R1) = 2 \<and> length (rows R2) = 2
     \<and> length (filter (\<lambda>r. r ''account'' = Str ''Second'') (rows R0)) = 1"
proof -
  have "is_ok (concat_accounts ex_lookup ex_accounts)"
    by code_simp
  then obtain R0 R1 R2 where ok: "concat_accounts ex_lookup ex_accounts = Inr (R0, R1, R2)"
    using is_ok_obtain by (metis prod_cases3)
  have d: "distinct (map fst ex_accounts)"
    by (simp add: ex_accounts_def)
  have x: "\<forall>(key, ps, os, xr) \<in> set ex_accounts. distinct (map fst xr)"
    by (simp add: ex_accounts_def)
  have e0: "case prepare_data ex_lookup [ex_position_rub, ex_position_usd] [ex_operation_usd]
                 [(''USD'', 90)] (Some ''Main'') of
              Inl e \<Rightarrow> False
            | Inr t \<Rightarrow> length (rows (fst t)) = 2 \<and> length (rows (fst (snd t))) = 1
                \<and> length (rows (snd (snd t))) = 1"
    by code_simp
  have e1: "case prepare_data ex_lookup [ex_position_usd] [ex_operation_rub]
                 [(''EUR'', 100)] (Some ''Second'') of
              Inl e \<Rightarrow> False
            | Inr t \<Rightarrow> length (rows (fst t)) = 1 \<and> length (rows (fst (snd t))) = 1
                \<and> length (rows (snd (snd t))) = 1"
    by code_simp
  from concat_accounts_keeps_rows [OF ok d x] obtain ts where
    len: "length ts = length ex_accounts"
    and each: "\<forall>k<length ex_accounts. case ex_accounts ! k of (key, ps, os, xr) \<Rightarrow>
          prepare_data ex_lookup ps os xr (Some key) = Inr (ts ! k)"
    and l0: "length (rows R0) = sum_list (map (\<lambda>t. length (rows (fst t))) ts)"
    and l1: "length (rows R1) = sum_list (map (\<lambda>t. length (rows (fst (snd t)))) ts)"
    and l2: "length (rows R2) = sum_list (map (\<lambda>t. length (rows (snd (snd t)))) ts)"
    and flt: "\<forall>k<length ex_accounts.
          filter (\<lambda>r. r ''account'' = Str (fst (ex_accounts ! k))) (rows R0) = reindex (fst (ts ! k))
          \<and> (\<forall>i<length (rows (fst (ts ! k))). \<forall>c. c \<in> set (columns (fst (ts ! k))) \<longrightarrow>
                (reindex (fst (ts ! k)) ! i) c = (rows (fst (ts ! k)) ! i) c)"
    by blast
  from len obtain t0 t1 where ts: "ts = [t0, t1]"
    by (auto simp: ex_accounts_def length_Suc_conv)
  from each [rule_format, of 0] e0 have p0: "length (rows (fst t0)) = 2"
    "length (rows (fst (snd t0))) = 1" "length (rows (snd (snd t0))) = 1"
    by (simp_all add: ex_accounts_def ts)
  from each [rule_format, of 1] e1 have p1: "length (rows (fst t1)) = 1"
    "length (rows (fst (snd t1))) = 1" "length (rows (snd (snd t1))) = 1"
    by (simp_all add: ex_accounts_def ts)
  from flt [rule_format, of 1]
  have "filter (\<lambda>r. r ''account'' = Str ''Second'') (rows R0) = reindex t1'" if "t1' = fst t1" for t1'
    using that by (simp add: ex_accounts_def ts)
  then have f: "length (filter (\<lambda>r. r ''account'' = Str ''Second'') (rows R0)) = 1"
    by (simp add: p1)
  from ok l0 l1 l2 f show ?thesis
    by (simp add: ts p0 p1)
qed

lemma columns_tagged_operations:
  "a \<noteq> [] \<Longrightarrow> columns (tag_frame (Some a) (DataFrame orows operations_columns))
     = operations_columns @ [''account'']"
  by (simp add: tag_frame_def setitem_scalar_def add_column_def DataFrame_def operations_columns_def)

lemma prepared_operations_columns:
  assumes ok: "prepare_data ER ps os xr (Some key) = Inr (P, Q, E)"
    and d: "distinct (map fst xr)"
    and nrub: "''RUB'' \<notin> fst ` set xr"
  shows "set (columns Q) = set operations_columns \<union> {''account'', ''payment_RUB'', ''commission_RUB''}
           \<union> (\<lambda>k. ''payment_'' @ k) ` fst ` set xr \<union> (\<lambda>k. ''commission_'' @ k) ` fst ` set xr"
proof -
  from prepare_data_Inr [OF ok] obtain a: "key \<noteq> []"
    and co: "convert_operations ER (tag_frame (Some key) (DataFrame (map operation_row os) operations_columns))
          (tag_frame (Some key) (rates_frame xr)) = Inr Q"
    by auto
  have e1: "''exchange_rate'' \<notin> set operations_columns \<union> {''account'', ''payment_RUB'', ''commission_RUB''}"
    by (simp add: operations_columns_def)
  have e2: "''exchange_rate'' \<notin> (\<lambda>k. ''payment_'' @ k) ` fst ` set xr \<union> (\<lambda>k. ''commission_'' @ k) ` fst ` set xr"
    by (auto simp: image_iff)
  have alg: "e \<notin> A \<Longrightarrow> e \<notin> B \<union> C \<Longrightarrow> (A0 \<union> {p, c} \<union> B \<union> C) - {e} = A \<union> B \<union> C"
    if "A = A0 \<union> {p, c}" for e :: string and A A0 B C p c
    using that by blast
  show ?thesis
    unfolding convert_operations_Inr(2) [OF a d nrub co] columns_tagged_operations [OF a]
    apply (rule trans [OF alg [OF _ e1 e2]])
     apply auto
    done
qed

lemma operations_not_derived:
  "''payment_'' @ X \<notin> set operations_columns \<union> {''account'', ''commission_RUB''}"
  "''commission_'' @ X \<notin> set operations_columns \<union> {''account'', ''payment_RUB''}"
  by (auto simp: operations_columns_def)

text \<open>
  C8. When the rate snapshot of one account has a currency \<open>X\<close> that the snapshot of
  another account lacks, the combined tables have the derived columns of \<open>X\<close> (their
  columns are the union of the accounts' columns), and in the rows of the account that
  lacks \<open>X\<close> the cells of these columns are the missing-value marker, not a number. The
  rate snapshots are dictionaries with no entry for the base currency.
\<close>

theorem concat_accounts_missing_currency_is_NA:
  assumes "concat_accounts ER accounts = Inr (R0, R1, R2)"
    and "\<forall>(key, ps, os, xr) \<in> set accounts. distinct (map fst xr) \<and> ''RUB'' \<notin> fst ` set xr"
    and "k < length accounts" and "accounts ! k = (key, ps, os, xr)"
    and "k' < length accounts" and "accounts ! k' = (key', ps', os', xr')"
    and "X \<in> fst ` set xr'" and "X \<notin> fst ` set xr"
  shows "\<exists>ts. length ts = length accounts
    \<and> prepare_data ER ps os xr (Some key) = Inr (ts ! k)
    \<and> rows R0 = concat (map (\<lambda>t. reindex (fst t)) ts)
    \<and> rows R1 = concat (map (\<lambda>t. reindex (fst (snd t))) ts)
    \<and> set (columns R0) = (\<Union>t \<in> set ts. set (columns (fst t)))
    \<and> set (columns R1) = (\<Union>t \<in> set ts. set (columns (fst (snd t))))
    \<and> ''value_'' @ X \<in> set (columns R0)
    \<and> ''payment_'' @ X \<in> set (columns R1) \<and> ''commission_'' @ X \<in> set (columns R1)
    \<and> (\<forall>r \<in> set (reindex (fst (ts ! k))). r (''value_'' @ X) = NA)
    \<and> (\<forall>r \<in> set (reindex (fst (snd (ts ! k)))).
          r (''payment_'' @ X) = NA \<and> r (''commission_'' @ X) = NA)"
proof -
  from concat_accounts_Inr [OF assms(1)] obtain ts where
    tr: "traverse (\<lambda>(key, val). case val of (portfolio, operations, exchange_rates) \<Rightarrow>
                  prepare_data ER portfolio operations exchange_rates (Some key)) accounts = Inr ts"
    and R0: "R0 = \<lparr>columns = union_columns (map (\<lambda>t. columns (fst t)) ts),
             rows = concat (map (\<lambda>t. reindex (fst t)) ts)\<rparr>"
    and R1: "R1 = \<lparr>columns = union_columns (map (\<lambda>t. columns (fst (snd t))) ts),
             rows = concat (map (\<lambda>t. reindex (fst (snd t))) ts)\<rparr>"
    by blast
  have len: "length ts = length accounts"
    using tr by (rule traverse_Inr_length)
  obtain P Q E where tk: "ts ! k = (P, Q, E)" by (metis prod_cases3)
  obtain P' Q' E' where tk': "ts ! k' = (P', Q', E')" by (metis prod_cases3)
  have ok: "prepare_data ER ps os xr (Some key) = Inr (P, Q, E)"
    using traverse_Inr_nth [OF tr assms(3)] by (simp add: assms(4) tk)
  have ok': "prepare_data ER ps' os' xr' (Some key') = Inr (P', Q', E')"
    using traverse_Inr_nth [OF tr assms(5)] by (simp add: assms(6) tk')
  have "(key, ps, os, xr) \<in> set accounts" using assms(3,4) by (metis nth_mem)
  with assms(2) have d: "distinct (map fst xr)" and nr: "''RUB'' \<notin> fst ` set xr" by auto
  have "(key', ps', os', xr') \<in> set accounts" using assms(5,6) by (metis nth_mem)
  with assms(2) have d': "distinct (map fst xr')" and nr': "''RUB'' \<notin> fst ` set xr'" by auto
  have XR: "X \<noteq> ''RUB''" using assms(7) nr' by blast
  note cP = prepared_positions_account(3) [OF ok d]
  note cP' = prepared_positions_account(3) [OF ok' d']
  note cQ = prepared_operations_columns [OF ok d nr]
  note cQ' = prepared_operations_columns [OF ok' d' nr']
  have c0: "set (columns R0) = (\<Union>t \<in> set ts. set (columns (fst t)))"
    by (simp add: R0 set_union_columns image_image)
  have c1: "set (columns R1) = (\<Union>t \<in> set ts. set (columns (fst (snd t))))"
    by (simp add: R1 set_union_columns image_image)
  have mem: "ts ! k' \<in> set ts" using assms(5) len by simp
  have "''value_'' @ X \<in> set (columns P')"
    unfolding cP' using assms(7) by blast
  then have v: "''value_'' @ X \<in> set (columns R0)"
    unfolding c0 using mem tk' by force
  have "''payment_'' @ X \<in> set (columns Q')" "''commission_'' @ X \<in> set (columns Q')"
    unfolding cQ' using assms(7) by blast+
  then have p: "''payment_'' @ X \<in> set (columns R1)" and c: "''commission_'' @ X \<in> set (columns R1)"
    unfolding c1 using mem tk' by force+
  have nv: "''value_'' @ X \<notin> set (columns P)"
  proof -
    have "''value_'' @ X \<notin> set tagged_columns" using tagged_not_value by blast
    moreover have "''value_'' @ X \<noteq> ''value_RUB''" using XR by simp
    moreover have "''value_'' @ X \<notin> (\<lambda>k. ''value_'' @ k) ` fst ` set xr"
      using assms(8) by (auto simp: image_iff)
    ultimately show ?thesis unfolding cP by blast
  qed
  have np: "''payment_'' @ X \<notin> set (columns Q)"
  proof -
    have "''payment_'' @ X \<noteq> ''payment_RUB''" using XR by simp
    moreover have "''payment_'' @ X \<notin> (\<lambda>k. ''payment_'' @ k) ` fst ` set xr"
      using assms(8) by (auto simp: image_iff)
    moreover have "''payment_'' @ X \<notin> (\<lambda>k. ''commission_'' @ k) ` fst ` set xr"
      by (auto simp: image_iff)
    ultimately show ?thesis unfolding cQ using operations_not_derived(1) [of X] by blast
  qed
  have nc: "''commission_'' @ X \<notin> set (columns Q)"
  proof -
    have "''commission_'' @ X \<noteq> ''commission_RUB''" using XR by simp
    moreover have "''commission_'' @ X \<notin> (\<lambda>k. ''commission_'' @ k) ` fst ` set xr"
      using assms(8) by (auto simp: image_iff)
    moreover have "''commission_'' @ X \<notin> (\<lambda>k. ''payment_'' @ k) ` fst ` set xr"
      by (auto simp: image_iff)
    ultimately show ?thesis unfolding cQ using operations_not_derived(2) [of X] by blast
  qed
  have a: "\<forall>r \<in> set (reindex (fst (ts ! k))). r (''value_'' @ X) = NA"
    using nv by (auto simp: tk reindex_def)
  have b: "\<forall>r \<in> set (reindex (fst (snd (ts ! k)))).
          r (''payment_'' @ X) = NA \<and> r (''commission_'' @ X) = NA"
    using np nc by (auto simp: tk reindex_def)
  have r0: "rows R0 = concat (map (\<lambda>t. reindex (fst t)) ts)" by (simp add: R0)
  have r1: "rows R1 = concat (map (\<lambda>t. reindex (fst (snd t))) ts)" by (simp add: R1)
  have ok2: "prepare_data ER ps os xr (Some key) = Inr (ts ! k)" using ok tk by simp
  from len ok2 r0 r1 c0 c1 v p c a b show ?thesis
    by (intro exI [of _ ts] conjI) assumption+
qed

theorem concat_accounts_missing_currency_is_NA_witness:
  "\<exists>R0 R1 R2. concat_accounts ex_lookup ex_accounts = Inr (R0, R1, R2)
     \<and> ''value_EUR'' \<in> set (columns R0) \<and> ''payment_EUR'' \<in> set (columns R1)
     \<and> (rows R0 ! 0) ''value_EUR'' = NA
     \<and> (rows R1 ! 0) ''payment_EUR'' = NA \<and> (rows R1 ! 0) ''commission_EUR'' = NA"
proof -
  have "is_ok (concat_accounts ex_lookup ex_accounts)"
    by code_simp
  then obtain R0 R1 R2 where ok: "concat_accounts ex_lookup ex_accounts = Inr (R0, R1, R2)"
    using is_ok_obtain by (metis prod_cases3)
  have x: "\<forall>(key, ps, os, xr) \<in> set ex_accounts. distinct (map fst xr) \<and> ''RUB'' \<notin> fst ` set xr"
    by (simp add: ex_accounts_def)
  have e0: "case prepare_data ex_lookup [ex_position_rub, ex_position_usd] [ex_operation_usd]
                 [(''USD'', 90)] (Some ''Main'') of
              Inl e \<Rightarrow> False
            | Inr t \<Rightarrow> length (rows (fst t)) = 2 \<and> length (rows (fst (snd t))) = 1"
    by code_simp
  have k0: "0 < length ex_accounts" and k1: "1 < length ex_accounts"
    by (simp_all add: ex_accounts_def)
  have a0: "ex_accounts ! 0 = (''Main'', [ex_position_rub, ex_position_usd], [ex_operation_usd], [(''USD'', 90)])"
    and a1: "ex_accounts ! 1 = (''Second'', [ex_position_usd], [ex_operation_rub], [(''EUR'', 100)])"
    by (simp_all add: ex_accounts_def)
  have m: "''EUR'' \<in> fst ` set [(''EUR'', 100 :: rat)]" and n: "''EUR'' \<notin> fst ` set [(''USD'', 90 :: rat)]"
    by simp_all
  from concat_accounts_missing_currency_is_NA [OF ok x k0 a0 k1 a1 m n] obtain ts where
    len: "length ts = length ex_accounts"
    and p: "prepare_data ex_lookup [ex_position_rub, ex_position_usd] [ex_operation_usd]
                 [(''USD'', 90)] (Some ''Main'') = Inr (ts ! 0)"
    and r0: "rows R0 = concat (map (\<lambda>t. reindex (fst t)) ts)"
    and r1: "rows R1 = concat (map (\<lambda>t. reindex (fst (snd t))) ts)"
    and cols: "''value_'' @ ''EUR'' \<in> set (columns R0)" "''payment_'' @ ''EUR'' \<in> set (columns R1)"
    and na0: "\<forall>r \<in> set (reindex (fst (ts ! 0))). r (''value_'' @ ''EUR'') = NA"
    and na1: "\<forall>r \<in> set (reindex (fst (snd (ts ! 0)))).
          r (''payment_'' @ ''EUR'') = NA \<and> r (''commission_'' @ ''EUR'') = NA"
    by blast
  from len obtain t0 t1 where ts: "ts = [t0, t1]"
    by (auto simp: ex_accounts_def length_Suc_conv)
  from e0 p have l: "length (rows (fst t0)) = 2" "length (rows (fst (snd t0))) = 1"
    by (simp_all add: ts)
  have i0: "rows R0 ! 0 \<in> set (reindex (fst t0))"
    using l by (simp add: r0 ts nth_append)
  have i1: "rows R1 ! 0 \<in> set (reindex (fst (snd t0)))"
    using l by (simp add: r1 ts nth_append)
  from na0 i0 have v: "(rows R0 ! 0) ''value_EUR'' = NA"
    by (simp add: ts)
  from na1 i1 have q: "(rows R1 ! 0) ''payment_EUR'' = NA \<and> (rows R1 ! 0) ''commission_EUR'' = NA"
    by (simp add: ts)
  from ok cols v q show ?thesis by simp
qed

end
